theory Spec2Isabelle
  imports Main
begin

section \<open>JavaScript values used by the handlers\<close>

text \<open>
  Strings are lists of 8-bit characters: one \<^typ>\<open>char\<close> stands for one UTF-16 code unit
  below 256, which covers every prefix, alias and phrase used below. Numbers that the
  sources use as counters and timestamps are integers. A value that JavaScript throws is
  an \<open>error\<close>; a function that may throw returns \<open>error + 'a\<close> with \<open>Inl\<close> for the throw.
\<close>

datatype error = TypeError | SyntaxError | CitrusError string | UserError string

definition charCode :: "char \<Rightarrow> nat" where
  "charCode c = of_char c"

text \<open>\<open>String.prototype.toLowerCase\<close> on code units below 256: A-Z and the Latin-1
  capitals U+00C0..U+00DE (without the multiplication sign U+00D7) move up by 32.\<close>

definition lowerChar :: "char \<Rightarrow> char" where
  "lowerChar c =
     (let n = charCode c
      in if (65 \<le> n \<and> n \<le> 90) \<or> (192 \<le> n \<and> n \<le> 222 \<and> n \<noteq> 215)
         then char_of (n + 32) else c)"

definition toLowerCase :: "string \<Rightarrow> string" where
  "toLowerCase s = map lowerChar s"

text \<open>The regular expression class \<open>\s\<close> (and the characters \<open>trim\<close> strips) below 256:
  tab, line feed, vertical tab, form feed, carriage return, space, no-break space.\<close>

definition isWhiteSpace :: "char \<Rightarrow> bool" where
  "isWhiteSpace c = (charCode c \<in> {9, 10, 11, 12, 13, 32, 160})"

fun startsWith :: "string \<Rightarrow> string \<Rightarrow> bool" where
  "startsWith s [] = True"
| "startsWith [] (p # ps) = False"
| "startsWith (c # s) (p # ps) = (c = p \<and> startsWith s ps)"

text \<open>\<open>s.indexOf(p)\<close>: the first position where \<open>p\<close> occurs in \<open>s\<close>, or -1.\<close>

fun indexOf :: "string \<Rightarrow> string \<Rightarrow> int" where
  "indexOf [] p = (if p = [] then 0 else -1)"
| "indexOf (c # s) p =
     (if startsWith (c # s) p then 0
      else (let k = indexOf s p in if k < 0 then -1 else k + 1))"

text \<open>\<open>s.includes(p)\<close> on a string is the substring test.\<close>

definition includesStr :: "string \<Rightarrow> string \<Rightarrow> bool" where
  "includesStr s p = (0 \<le> indexOf s p)"

text \<open>\<open>s.slice(start)\<close>: a negative start counts from the end, and the start is clamped
  to the string.\<close>

definition slice :: "string \<Rightarrow> int \<Rightarrow> string" where
  "slice s start =
     (let n = int (length s);
          k = (if start < 0 then max (n + start) 0 else min start n)
      in drop (nat k) s)"

text \<open>\<open>s.search(/\S/)\<close>: the position of the first character that is not white space,
  or -1.\<close>

fun searchNonSpace :: "string \<Rightarrow> int" where
  "searchNonSpace [] = -1"
| "searchNonSpace (c # s) =
     (if \<not> isWhiteSpace c then 0
      else (let k = searchNonSpace s in if k < 0 then -1 else k + 1))"

text \<open>\<open>s.split(/\s{1,}|\n{1,}/)[0]\<close>: the characters before the first white space.\<close>

definition splitFirst :: "string \<Rightarrow> string" where
  "splitFirst s = takeWhile (\<lambda>c. \<not> isWhiteSpace c) s"

definition trim :: "string \<Rightarrow> string" where
  "trim s = rev (dropWhile isWhiteSpace (rev (dropWhile isWhiteSpace s)))"

text \<open>\<open>Array.prototype.sort\<close> with a comparator is stable: an element moves before
  another only when the comparator says so. The model is the stable insertion sort.\<close>

fun insertBy :: "('a \<Rightarrow> 'a \<Rightarrow> int) \<Rightarrow> 'a \<Rightarrow> 'a list \<Rightarrow> 'a list" where
  "insertBy cmp x [] = [x]"
| "insertBy cmp x (y # ys) = (if cmp x y \<le> 0 then x # y # ys else y # insertBy cmp x ys)"

definition sortBy :: "('a \<Rightarrow> 'a \<Rightarrow> int) \<Rightarrow> 'a list \<Rightarrow> 'a list" where
  "sortBy cmp xs = foldr (insertBy cmp) xs []"

section \<open>CitrusClient: owners and super users\<close>

text \<open>\<open>ownerID\<close> and \<open>superUserID\<close> are a snowflake or an array of snowflakes.\<close>

datatype snowflakes = One string | Many "string list"

record client =
  ownerID :: snowflakes
  superUserID :: snowflakes
  clientUser :: "string option"

text \<open>\<open>x.includes(id)\<close>: membership for an array, the substring test for a string.\<close>

fun includesId :: "snowflakes \<Rightarrow> string \<Rightarrow> bool" where
  "includesId (One s) i = includesStr s i"
| "includesId (Many xs) i = (i \<in> set xs)"

text \<open>\<open>isOwner\<close> and \<open>isSuperUser\<close> take the id that \<open>users.resolveId\<close> found for the
  user, \<open>None\<close> when it found none.\<close>

definition isOwner :: "client \<Rightarrow> string option \<Rightarrow> bool" where
  "isOwner cl user =
     (case user of
        None \<Rightarrow> False
      | Some i \<Rightarrow>
          if i = [] then False
          else (case ownerID cl of Many xs \<Rightarrow> i \<in> set xs | One s \<Rightarrow> i = s))"

definition isSuperUser :: "client \<Rightarrow> string option \<Rightarrow> bool" where
  "isSuperUser cl user =
     (case user of
        None \<Rightarrow> False
      | Some i \<Rightarrow>
          if i = [] then False
          else (case superUserID cl of
                  Many xs \<Rightarrow> i \<in> set xs \<or> includesId (ownerID cl) i
                | One s \<Rightarrow> i = s \<or> ownerID cl = One i))"

datatype builtInReason =
  OWNER | SUPER_USER | GUILD | DM | NOT_NSFW | CLIENT | BOT | AUTHOR_NOT_FOUND

datatype reason = BuiltIn builtInReason | Custom string

section \<open>ContextMenuCommandHandler\<close>

record interaction =
  commandName :: string
  interactionUser :: string

record contextMenuCommand =
  cm_id :: string
  cm_name :: string
  cm_ownerOnly :: bool
  cm_superUserOnly :: bool
  cm_exec :: "interaction \<Rightarrow> error + string"

datatype contextEvent =
  CM_NOT_FOUND interaction
| CM_BLOCKED interaction string builtInReason
| CM_STARTED interaction string
| CM_FINISHED interaction string string
| CM_ERROR error interaction string

text \<open>What a handling does that can be observed: the events it emits and the calls of
  the command body.\<close>

datatype contextAction = CM_Emit contextEvent | CM_Exec string interaction

record contextMenuCommandHandler =
  cmh_client :: client
  cmh_modules :: "contextMenuCommand list"
  cmh_errorListeners :: nat

text \<open>\<open>ContextMenuCommandHandler.handle\<close>. The result is the value of the promise,
  \<open>Inl\<close> when \<open>emitError\<close> found no listener and threw again.\<close>

definition cm_handle ::
  "contextMenuCommandHandler \<Rightarrow> interaction \<Rightarrow> (error + bool) \<times> contextAction list" where
  "cm_handle h i =
     (case find (\<lambda>m. cm_name m = commandName i) (cmh_modules h) of
        None \<Rightarrow> (Inr False, [CM_Emit (CM_NOT_FOUND i)])
      | Some c \<Rightarrow>
          (let t1 = (if cm_ownerOnly c \<and> \<not> isOwner (cmh_client h) (Some (interactionUser i))
                     then [CM_Emit (CM_BLOCKED i (cm_id c) OWNER)] else []);
               t2 = (if cm_superUserOnly c
                        \<and> \<not> isSuperUser (cmh_client h) (Some (interactionUser i))
                     then [CM_Emit (CM_BLOCKED i (cm_id c) SUPER_USER)] else []);
               t3 = t1 @ t2 @ [CM_Emit (CM_STARTED i (cm_id c)), CM_Exec (cm_id c) i]
           in case cm_exec c i of
                Inr ret \<Rightarrow> (Inr True, t3 @ [CM_Emit (CM_FINISHED i (cm_id c) ret)])
              | Inl err \<Rightarrow>
                  if 0 < cmh_errorListeners h
                  then (Inr False, t3 @ [CM_Emit (CM_ERROR err i (cm_id c))])
                  else (Inl err, t3)))"

section \<open>Messages, arguments and commands\<close>

record user =
  user_id :: string
  user_bot :: bool

record channel =
  channel_id :: string
  channel_nsfw :: bool
  channel_isDM :: bool

text \<open>A message as the handlers read it. \<open>m_clientPermissions\<close> and
  \<open>m_authorPermissions\<close> are what \<open>channel.permissionsFor\<close> gives for the bot and for the
  author: the permissions held, \<open>None\<close> when it gives nothing.\<close>

record message =
  m_id :: string
  m_author :: "user option"
  m_content :: string
  m_createdTimestamp :: int
  m_editedTimestamp :: "int option"
  m_guild :: "string option"
  m_channel :: channel
  m_clientPermissions :: "string list option"
  m_authorPermissions :: "string list option"

text \<open>Modelled from the spec: the class \<open>Flag\<close> is not among the sources. The spec gives
  its three kinds: \<open>cancel\<close>, \<open>retry\<close> with the message to handle instead, and \<open>continue\<close>
  with the name of another command, an ignore-inhibitors flag and the leftover text. The
  handler reads these as \<open>args.message\<close>, \<open>args.command\<close>, \<open>args.ignore\<close> and \<open>args.rest\<close>;
  an absent or falsy \<open>ignore\<close> is \<open>False\<close>.\<close>

datatype flag = Cancel | Retry message | Continue string bool string

text \<open>What \<open>Command.parse\<close> resolves to, and what \<open>Command.exec\<close> is given (its parameter
  has the type \<open>any\<close>): an arguments object, here the list of its entries, or a Flag.\<close>

datatype args = Args "(string \<times> string) list" | FlagValue flag

text \<open>\<open>ignoreCooldown\<close> and \<open>ignorePermissions\<close>: a snowflake, an array of snowflakes or a
  predicate on the message and the command (here given the command's id).\<close>

datatype ignoreCheck =
  IgnoreId string | IgnoreIds "string list" | IgnoreFn "message \<Rightarrow> string \<Rightarrow> bool"

text \<open>\<open>clientPermissions\<close> and \<open>userPermissions\<close>: a supplier that returns what is missing
  (\<open>None\<close> for \<open>null\<close>), or the permissions to resolve against the channel.\<close>

datatype permissionCheck =
  PermissionSupplier "message \<Rightarrow> error + string list option"
| Permissions "string list"

text \<open>A prefix option is a string, an array of strings, or a supplier of either.\<close>

datatype prefixValue = PrefixString string | PrefixArray "string list"

datatype prefixSource = PrefixValue prefixValue | PrefixSupplier "message \<Rightarrow> prefixValue"

datatype channelRestriction = GuildOnly | DmOnly

text \<open>A command after its constructor ran. \<open>c_parse\<close> stands for
  \<open>contentParser.parse\<close> followed by \<open>argumentRunner.run\<close>, and \<open>c_regex\<close> for the regular
  expression (or its supplier) matched against the content: \<open>Some\<close> of the match when
  there is one. Both classes and the regular expression engine are outside the sources.
  \<open>c_execSlash\<close> is the \<open>execSlash\<close> that the command's own class defines, \<open>None\<close> when
  it defines none and the command has only the one of the base class, which throws.\<close>

record command =
  c_id :: string
  c_prefix :: "prefixSource option"
  c_editable :: bool
  c_ownerOnly :: bool
  c_superUserOnly :: bool
  c_channel :: "channelRestriction option"
  c_onlyNsfw :: bool
  c_slashOnly :: bool
  c_clientPermissions :: "permissionCheck option"
  c_userPermissions :: "permissionCheck option"
  c_ignorePermissions :: "ignoreCheck option"
  c_ignoreCooldown :: "ignoreCheck option"
  c_cooldown :: "int option"
  c_ratelimit :: int
  c_lock :: "(message \<Rightarrow> args \<Rightarrow> error + string option) option"
  c_regex :: "(message \<Rightarrow> (string \<times> string) list option) option"
  c_condition :: "message \<Rightarrow> error + bool"
  c_before :: "message \<Rightarrow> error option"
  c_parse :: "message \<Rightarrow> string \<Rightarrow> error + args"
  c_exec :: "message \<Rightarrow> args \<Rightarrow> error + string"
  c_execSlash :: "(message \<Rightarrow> args \<Rightarrow> error + string) option"


definition lockChannel :: "message \<Rightarrow> args \<Rightarrow> error + string option" where
  "lockChannel m a = Inr (Some (channel_id (m_channel m)))"


text \<open>The constructor's defaults for a command that is given only its id: no prefix of
  its own, editable, no restriction, no cooldown of its own, rate limit 1, no lock, no
  regular expression, a condition that is false, a \<open>before\<close> that does nothing, no
  arguments to parse, the \<open>exec\<close> of the base class, which throws, and no \<open>execSlash\<close>
  of its own.\<close>

definition newCommand :: "string \<Rightarrow> command" where
  "newCommand i =
     \<lparr> c_id = i, c_prefix = None, c_editable = True, c_ownerOnly = False,
       c_superUserOnly = False, c_channel = None, c_onlyNsfw = False, c_slashOnly = False,
       c_clientPermissions = None, c_userPermissions = None, c_ignorePermissions = None,
       c_ignoreCooldown = None, c_cooldown = None, c_ratelimit = 1, c_lock = None,
       c_regex = None, c_condition = (\<lambda>m. Inr False), c_before = (\<lambda>m. None),
       c_parse = (\<lambda>m s. Inr (Args [])),
       c_exec = (\<lambda>m a. Inl (CitrusError ''NOT_IMPLEMENTED'')), c_execSlash = None \<rparr>"

section \<open>InhibitorHandler\<close>

record inhibitor =
  inh_id :: string
  inh_type :: string
  inh_priority :: int
  inh_reason :: string
  inh_exec :: "message \<Rightarrow> command option \<Rightarrow> error + bool"

text \<open>The promises of \<open>test\<close>, one per inhibitor: \<open>Promise.all\<close> keeps their order, and
  the inhibitors that blocked are those whose \<open>exec\<close> gave a truthy value. An \<open>exec\<close> that
  throws rejects the whole test.\<close>

fun runInhibitors :: "inhibitor list \<Rightarrow> message \<Rightarrow> command option \<Rightarrow> error + inhibitor list" where
  "runInhibitors [] m c = Inr []"
| "runInhibitors (i # rest) m c =
     (case inh_exec i m c of
        Inl e \<Rightarrow> Inl e
      | Inr inhibited \<Rightarrow>
          (case runInhibitors rest m c of
             Inl e \<Rightarrow> Inl e
           | Inr others \<Rightarrow> Inr (if inhibited then i # others else others)))"

text \<open>\<open>InhibitorHandler.test\<close> on the loaded inhibitors, in the order of the collection.
  \<open>Inr None\<close> is the result \<open>null\<close>.\<close>

definition test :: "inhibitor list \<Rightarrow> string \<Rightarrow> message \<Rightarrow> command option \<Rightarrow> error + string option" where
  "test modules ty m c =
     (if modules = [] then Inr None
      else
        (let inhibitors = filter (\<lambda>i. inh_type i = ty) modules
         in if inhibitors = [] then Inr None
            else
              (case runInhibitors inhibitors m c of
                 Inl e \<Rightarrow> Inl e
               | Inr inhibitedInhibitors \<Rightarrow>
                   if inhibitedInhibitors = [] then Inr None
                   else
                     (case sortBy (\<lambda>a b. inh_priority b - inh_priority a) inhibitedInhibitors of
                        first # others \<Rightarrow> Inr (Some (inh_reason first))
                      | [] \<Rightarrow> Inr None))))"

section \<open>TypeResolver: the built-in \<open>bigint\<close> caster\<close>

text \<open>
  The caster is \<open>if (!phrase || isNaN(+phrase)) return null; return BigInt(phrase);\<close>.
  \<open>+phrase\<close> applies ECMAScript's StringToNumber: white space is stripped, the empty
  string is 0, and anything else is a number exactly when it is a StrNumericLiteral: a
  signed decimal literal (\<open>Infinity\<close>, digits with an optional fraction and exponent) or
  an unsigned binary, octal or hexadecimal integer literal. \<open>BigInt(phrase)\<close> applies
  StringToBigInt: white space is stripped, the empty string is 0, and anything else must
  be a signed run of decimal digits or an unsigned binary, octal or hexadecimal literal;
  otherwise it throws a SyntaxError.
\<close>

definition isDecimalDigit :: "char \<Rightarrow> bool" where
  "isDecimalDigit c = (48 \<le> charCode c \<and> charCode c \<le> 57)"

definition digitValue :: "char \<Rightarrow> nat option" where
  "digitValue c =
     (let n = charCode c
      in if 48 \<le> n \<and> n \<le> 57 then Some (n - 48)
         else if 97 \<le> n \<and> n \<le> 102 then Some (n - 87)
         else if 65 \<le> n \<and> n \<le> 70 then Some (n - 55)
         else None)"

definition isDigitOfBase :: "nat \<Rightarrow> char \<Rightarrow> bool" where
  "isDigitOfBase base c = (case digitValue c of None \<Rightarrow> False | Some v \<Rightarrow> v < base)"

definition digitsValue :: "nat \<Rightarrow> string \<Rightarrow> int" where
  "digitsValue base s =
     foldl (\<lambda>acc c. acc * int base + int (case digitValue c of None \<Rightarrow> 0 | Some v \<Rightarrow> v)) 0 s"

definition decimalDigits :: "string \<Rightarrow> bool" where
  "decimalDigits s = (s \<noteq> [] \<and> list_all isDecimalDigit s)"

definition signedInteger :: "string \<Rightarrow> bool" where
  "signedInteger s =
     (case s of
        [] \<Rightarrow> False
      | c # r \<Rightarrow> if c = CHR ''+'' \<or> c = CHR ''-'' then decimalDigits r else decimalDigits s)"

definition exponentPartOpt :: "string \<Rightarrow> bool" where
  "exponentPartOpt s =
     (case s of
        [] \<Rightarrow> True
      | c # r \<Rightarrow> (c = CHR ''e'' \<or> c = CHR ''E'') \<and> signedInteger r)"

definition strUnsignedDecimalLiteral :: "string \<Rightarrow> bool" where
  "strUnsignedDecimalLiteral s =
     (s = ''Infinity'' \<or>
      (let d1 = takeWhile isDecimalDigit s; r1 = dropWhile isDecimalDigit s
       in case r1 of
            [] \<Rightarrow> d1 \<noteq> []
          | c # r2 \<Rightarrow>
              if c = CHR ''.''
              then (let d2 = takeWhile isDecimalDigit r2; r3 = dropWhile isDecimalDigit r2
                    in (d1 \<noteq> [] \<or> d2 \<noteq> []) \<and> exponentPartOpt r3)
              else d1 \<noteq> [] \<and> exponentPartOpt r1))"

definition strDecimalLiteral :: "string \<Rightarrow> bool" where
  "strDecimalLiteral s =
     (case s of
        [] \<Rightarrow> False
      | c # r \<Rightarrow>
          if c = CHR ''+'' \<or> c = CHR ''-'' then strUnsignedDecimalLiteral r
          else strUnsignedDecimalLiteral s)"

text \<open>The base of a non-decimal integer literal \<open>0b...\<close>, \<open>0o...\<close> or \<open>0x...\<close> and its
  digits, when the string is one.\<close>

definition nonDecimalIntegerLiteral :: "string \<Rightarrow> (nat \<times> string) option" where
  "nonDecimalIntegerLiteral s =
     (case s of
        z # b # ds \<Rightarrow>
          (let base = (if b = CHR ''b'' \<or> b = CHR ''B'' then Some 2
                       else if b = CHR ''o'' \<or> b = CHR ''O'' then Some 8
                       else if b = CHR ''x'' \<or> b = CHR ''X'' then Some (16::nat)
                       else None)
           in case base of
                None \<Rightarrow> None
              | Some n \<Rightarrow>
                  if z = CHR ''0'' \<and> ds \<noteq> [] \<and> list_all (isDigitOfBase n) ds
                  then Some (n, ds) else None)
      | _ \<Rightarrow> None)"

text \<open>\<open>isNaN(+phrase)\<close>.\<close>

definition isNaNString :: "string \<Rightarrow> bool" where
  "isNaNString phrase =
     (let t = trim phrase
      in \<not> (t = [] \<or> strDecimalLiteral t \<or> nonDecimalIntegerLiteral t \<noteq> None))"

text \<open>\<open>BigInt(phrase)\<close> on a string.\<close>

definition stringToBigInt :: "string \<Rightarrow> error + int" where
  "stringToBigInt phrase =
     (let t = trim phrase
      in if t = [] then Inr 0
         else if signedInteger t
         then (case t of
                 c # r \<Rightarrow>
                   if c = CHR ''-'' then Inr (- digitsValue 10 r)
                   else if c = CHR ''+'' then Inr (digitsValue 10 r)
                   else Inr (digitsValue 10 t)
               | [] \<Rightarrow> Inr 0)
         else (case nonDecimalIntegerLiteral t of
                 Some (base, ds) \<Rightarrow> Inr (digitsValue base ds)
               | None \<Rightarrow> Inl SyntaxError))"

text \<open>The caster registered for \<open>ArgumentTypes.BIGINT\<close>; \<open>Inr None\<close> is \<open>null\<close>. It does
  not read the message.\<close>

definition BIGINT :: "string \<Rightarrow> error + int option" where
  "BIGINT phrase =
     (if phrase = [] \<or> isNaNString phrase then Inr None
      else (case stringToBigInt phrase of Inl e \<Rightarrow> Inl e | Inr v \<Rightarrow> Inr (Some v)))"

section \<open>CommandHandler: configuration, state and events\<close>

text \<open>A slash command interaction as far as \<open>handleSlash\<close> reads it: the name of the
  command, the \<open>CitrusMessage\<close> that the constructor builds from the interaction (its
  author, content, timestamp, channel and guild; it has no \<open>editedTimestamp\<close>), and what
  the conversion of the interaction's options gives for the command that is found: the
  converted options, or the error that the conversion throws. The conversion reads the
  options through the getters of discord.js, by the names of
  \<open>CitrusApplicationCommandOptionType\<close>, and fills in the options of the command's
  \<open>slashOptions\<close> that were not given; these are outside the sources.\<close>

record slashInteraction =
  si_commandName :: string
  si_message :: message
  si_convertedOptions :: "error + (string \<times> string) list"

text \<open>The events of the command handler with their arguments. A command is named by
  its id; it is absent only where the handler was given no command.\<close>

datatype event =
  MESSAGE_BLOCKED message reason
| IN_PROMPT message
| MESSAGE_INVALID message
| SLASH_ONLY message string
| COMMAND_BLOCKED message "string option" reason
| MISSING_PERMISSIONS message string string "string list"
| COOLDOWN message string int
| COMMAND_CANCELLED message string
| COMMAND_BREAKOUT message string message
| COMMAND_LOCKED message string
| COMMAND_STARTED message string args
| COMMAND_FINISHED message string args string
| ERROR error message "string option"
| SLASH_NOT_FOUND slashInteraction
| SLASH_STARTED message string args
| SLASH_FINISHED message string args string
| SLASH_ERROR error message string

text \<open>What the handler does that can be observed: an event it emits, or a call of a
  command's \<open>exec\<close> or \<open>execSlash\<close> with the message and the arguments.\<close>

datatype action = Emit event | Exec string message args | ExecSlash string message args

text \<open>The options and collections of the handler that handling a message does not
  change: the loaded commands and the alias table in the order of their collections,
  the prefix overwrites with the ids of their commands, the inhibitor handler if one is
  used, the option \<open>execSlash\<close>, and the number of listeners of the error event.\<close>

record commandHandler =
  h_client :: client
  h_modules :: "(string \<times> command) list"
  h_aliases :: "(string \<times> string) list"
  h_prefix :: prefixSource
  h_prefixes :: "(prefixSource \<times> string list) list"
  h_inhibitorHandler :: "inhibitor list option"
  h_blockClient :: bool
  h_blockBots :: bool
  h_skipBuiltInPostInhibitors :: bool
  h_defaultCooldown :: int
  h_ignoreCooldown :: ignoreCheck
  h_ignorePermissions :: ignoreCheck
  h_execSlash :: bool
  h_errorListeners :: nat

text \<open>\<open>CooldownData\<close>: the timer, the end of the cooldown and the uses so far.\<close>

record cooldownData =
  cd_timer :: nat
  cd_end :: int
  cd_uses :: int

text \<open>A timer that \<open>setTimeout\<close> registered: the clock when it was set, its delay,
  and the user and command its callback clears.\<close>

record timer =
  t_set :: int
  t_delay :: int
  t_user :: "string option"
  t_command :: string

text \<open>The state that handling changes. \<open>cooldowns\<close> maps a user id (\<open>None\<close> for a
  message without author) to the object that maps a command id to its entry; an entry
  that the timer set to \<open>null\<close> is \<open>Some None\<close>. \<open>lockers\<close> gives each command's lock set,
  \<open>prompts\<close> the users with an ongoing prompt per channel, \<open>timers\<close> the pending
  timers by their handles, \<open>now\<close> is the clock in milliseconds, and \<open>trace\<close> collects
  what was done.\<close>

record hstate =
  cooldowns :: "string option \<Rightarrow> (string \<Rightarrow> cooldownData option option) option"
  timers :: "nat \<Rightarrow> timer option"
  nextTimer :: nat
  now :: int
  lockers :: "string \<Rightarrow> string set"
  prompts :: "string \<Rightarrow> string set option"
  trace :: "action list"

definition initialState :: "int \<Rightarrow> hstate" where
  "initialState t =
     \<lparr> cooldowns = (\<lambda>u. None), timers = (\<lambda>k. None), nextTimer = 0, now = t,
       lockers = (\<lambda>c. {}), prompts = (\<lambda>c. None), trace = [] \<rparr>"

definition emit :: "event \<Rightarrow> hstate \<Rightarrow> hstate" where
  "emit e s = s\<lparr>trace := trace s @ [Emit e]\<rparr>"

text \<open>\<open>emitError\<close>: the error goes to the listeners of the error event; without a
  listener it is thrown again.\<close>

definition emitError ::
  "commandHandler \<Rightarrow> error \<Rightarrow> message \<Rightarrow> string option \<Rightarrow> hstate \<Rightarrow> (error + unit) \<times> hstate" where
  "emitError h err m c s =
     (if 0 < h_errorListeners h then (Inr (), emit (ERROR err m c) s) else (Inl err, s))"

section \<open>Cooldowns\<close>

text \<open>\<open>command.ignoreCooldown || this.ignoreCooldown\<close>: the command's own check unless
  it is undefined or the empty string.\<close>

definition orHandler :: "ignoreCheck option \<Rightarrow> ignoreCheck \<Rightarrow> ignoreCheck" where
  "orHandler own general =
     (case own of
        None \<Rightarrow> general
      | Some (IgnoreId i) \<Rightarrow> if i = [] then general else IgnoreId i
      | Some other \<Rightarrow> other)"

text \<open>Whether the check ignores the user with this id (\<open>None\<close> when the message has no
  author): membership for an array, the predicate's answer, or equality with the one
  id.\<close>

definition isIgnored :: "ignoreCheck \<Rightarrow> string option \<Rightarrow> message \<Rightarrow> string \<Rightarrow> bool" where
  "isIgnored ignorer uid m cid =
     (case ignorer of
        IgnoreIds xs \<Rightarrow> (case uid of None \<Rightarrow> False | Some u \<Rightarrow> u \<in> set xs)
      | IgnoreFn f \<Rightarrow> f m cid
      | IgnoreId i \<Rightarrow> uid = Some i)"

text \<open>The entry of a user and a command: the own property of the user's object under
  the command's id, when it is there and not \<open>null\<close>. What a lookup finds when there is
  no own property is in \<open>findsInherited\<close> below.\<close>

definition entryOf :: "hstate \<Rightarrow> string option \<Rightarrow> string \<Rightarrow> cooldownData option" where
  "entryOf s uid cid =
     (case cooldowns s uid of
        None \<Rightarrow> None
      | Some perUser \<Rightarrow> (case perUser cid of Some (Some e) \<Rightarrow> Some e | _ \<Rightarrow> None))"

text \<open>\<open>this.cooldowns.get(id)[command.id] = v\<close>, after \<open>this.cooldowns.set(id, {})\<close> when
  the user had no object yet.\<close>

definition setEntry :: "string option \<Rightarrow> string \<Rightarrow> cooldownData option \<Rightarrow> hstate \<Rightarrow> hstate" where
  "setEntry uid cid v s =
     s\<lparr>cooldowns := (cooldowns s)
          (uid \<mapsto> (case cooldowns s uid of None \<Rightarrow> Map.empty | Some perUser \<Rightarrow> perUser)
                    (cid \<mapsto> v))\<rparr>"

text \<open>Node's \<open>setTimeout\<close> uses a delay of 1 ms when the given delay is below 1 or above
  2147483647.\<close>

definition timeoutDelay :: "int \<Rightarrow> int" where
  "timeoutDelay t = (if t < 1 \<or> 2147483647 < t then 1 else t)"

definition setTimeout :: "int \<Rightarrow> string option \<Rightarrow> string \<Rightarrow> hstate \<Rightarrow> hstate" where
  "setTimeout time uid cid s =
     s\<lparr>timers := (timers s)
          (nextTimer s \<mapsto> \<lparr> t_set = now s, t_delay = timeoutDelay time,
                            t_user = uid, t_command = cid \<rparr>),
       nextTimer := Suc (nextTimer s)\<rparr>"

definition clearTimeout :: "nat \<Rightarrow> hstate \<Rightarrow> hstate" where
  "clearTimeout k s = s\<lparr>timers := (timers s)(k := None)\<rparr>"

text \<open>The cooldown of a command: its own unless that is \<open>null\<close>, else the handler's
  default.\<close>

definition cooldownTime :: "commandHandler \<Rightarrow> command \<Rightarrow> int" where
  "cooldownTime h c = (case c_cooldown c of Some t \<Rightarrow> t | None \<Rightarrow> h_defaultCooldown h)"

text \<open>The user's object is a plain object, \<open>{}\<close>, so a lookup by a name that it does
  not have as its own property finds what \<open>Object.prototype\<close> has under that name.
  These are the names that \<open>Object.prototype\<close> has in Node; their values are functions,
  and the prototype itself for \<open>__proto__\<close>, so all of them are truthy.\<close>

definition inheritedProperty :: "string \<Rightarrow> bool" where
  "inheritedProperty name =
     (name \<in> set [''constructor'', ''__defineGetter__'', ''__defineSetter__'', ''hasOwnProperty'',
                   ''__lookupGetter__'', ''__lookupSetter__'', ''isPrototypeOf'',
                   ''propertyIsEnumerable'', ''toString'', ''valueOf'', ''__proto__'',
                   ''toLocaleString''])"

text \<open>Whether \<open>this.cooldowns.get(id)[command.id]\<close> finds an inherited value: the name
  is one of \<open>Object.prototype\<close> and the user's object, new or not, has no own property
  of that name (an entry that the timer set to \<open>null\<close> is an own property).\<close>

definition findsInherited :: "hstate \<Rightarrow> string option \<Rightarrow> string \<Rightarrow> bool" where
  "findsInherited s uid cid =
     (inheritedProperty cid
      \<and> (case cooldowns s uid of None \<Rightarrow> True | Some perUser \<Rightarrow> perUser cid = None))"

text \<open>\<open>if (!this.cooldowns.has(id)) this.cooldowns.set(id, {})\<close>.\<close>

definition ensureUser :: "string option \<Rightarrow> hstate \<Rightarrow> hstate" where
  "ensureUser uid s =
     (case cooldowns s uid of
        None \<Rightarrow> s\<lparr>cooldowns := (cooldowns s)(uid \<mapsto> Map.empty)\<rparr>
      | Some perUser \<Rightarrow> s)"

text \<open>\<open>runCooldowns\<close>: \<open>True\<close> when the user is under cooldown. The entry is created
  with its timer when the lookup finds nothing truthy (no property, or \<open>null\<close>); the
  use is counted unless the rate limit is reached. When the lookup finds an inherited
  value, no entry and no timer are created; the \<open>uses\<close> of that value is \<open>undefined\<close>, or
  \<open>NaN\<close> once it was incremented, which is never at or above the rate limit, so the
  call increments it on the inherited value and returns \<open>false\<close>.\<close>

definition runCooldowns :: "commandHandler \<Rightarrow> message \<Rightarrow> command \<Rightarrow> hstate \<Rightarrow> bool \<times> hstate" where
  "runCooldowns h m c s =
     (let uid = map_option user_id (m_author m);
          ignorer = orHandler (c_ignoreCooldown c) (h_ignoreCooldown h)
      in if isIgnored ignorer uid m (c_id c) then (False, s)
         else
           (let time = cooldownTime h c
            in if time = 0 then (False, s)
               else if findsInherited s uid (c_id c) then (False, ensureUser uid s)
               else
                 (let endTime = m_createdTimestamp m + time;
                      (entry, s1) =
                        (case entryOf s uid (c_id c) of
                           Some e \<Rightarrow> (e, s)
                         | None \<Rightarrow>
                             (let e = \<lparr> cd_timer = nextTimer s, cd_end = endTime, cd_uses = 0 \<rparr>
                              in (e, setEntry uid (c_id c) (Some e)
                                       (setTimeout time uid (c_id c) s))))
                  in if c_ratelimit c \<le> cd_uses entry
                     then (True, emit (COOLDOWN m (c_id c) (cd_end entry - m_createdTimestamp m)) s1)
                     else (False, setEntry uid (c_id c)
                                    (Some (entry\<lparr>cd_uses := cd_uses entry + 1\<rparr>)) s1))))"

text \<open>The callback of the timer: it clears the timer of the entry that is there, sets
  the entry to \<open>null\<close>, and deletes the user's object when it has no key left. It throws
  when the user has no object.\<close>

definition cooldownExpired :: "string option \<Rightarrow> string \<Rightarrow> hstate \<Rightarrow> error + hstate" where
  "cooldownExpired uid cid s =
     (case cooldowns s uid of
        None \<Rightarrow> Inl TypeError
      | Some perUser \<Rightarrow>
          (let s1 = (case perUser cid of
                       Some (Some e) \<Rightarrow> clearTimeout (cd_timer e) s
                     | _ \<Rightarrow> s);
               cleared = perUser(cid \<mapsto> None)
           in Inr (s1\<lparr>cooldowns :=
                     (if dom cleared = {} then (cooldowns s1)(uid := None)
                      else (cooldowns s1)(uid \<mapsto> cleared))\<rparr>)))"

text \<open>What can happen to the cooldowns over time: a call of \<open>runCooldowns\<close>, the clock
  moving on, or a timer firing. A timer fires only when it is pending and its delay
  has passed; a step that cannot happen, or a callback that throws, gives \<open>None\<close>.\<close>

datatype cooldownStep = Use message command | Elapse nat | Fire nat

fun step :: "commandHandler \<Rightarrow> hstate \<Rightarrow> cooldownStep \<Rightarrow> hstate option" where
  "step h s (Use m c) = Some (snd (runCooldowns h m c s))"
| "step h s (Elapse d) = Some (s\<lparr>now := now s + int d\<rparr>)"
| "step h s (Fire k) =
     (case timers s k of
        None \<Rightarrow> None
      | Some t \<Rightarrow>
          if now s < t_set t + t_delay t then None
          else (case cooldownExpired (t_user t) (t_command t) (clearTimeout k s) of
                  Inl e \<Rightarrow> None
                | Inr s' \<Rightarrow> Some s'))"

fun run :: "commandHandler \<Rightarrow> hstate \<Rightarrow> cooldownStep list \<Rightarrow> hstate option" where
  "run h s [] = Some s"
| "run h s (x # xs) = (case step h s x of None \<Rightarrow> None | Some s' \<Rightarrow> run h s' xs)"

text \<open>A message counts for the cooldown of a user and a command when this user wrote it
  and the ignore check does not exempt the user.\<close>

definition countedFor :: "commandHandler \<Rightarrow> command \<Rightarrow> string option \<Rightarrow> message \<Rightarrow> bool" where
  "countedFor h c uid m =
     (map_option user_id (m_author m) = uid
      \<and> \<not> isIgnored (orHandler (c_ignoreCooldown c) (h_ignoreCooldown h)) uid m (c_id c))"



text \<open>Every pending timer has a handle that was given out, and belongs to the live entry
  of its user and command.\<close>

definition timersConsistent :: "hstate \<Rightarrow> bool" where
  "timersConsistent s =
     (\<forall>k t. timers s k = Some t \<longrightarrow>
        k < nextTimer s
        \<and> (\<exists>e. entryOf s (t_user t) (t_command t) = Some e \<and> cd_timer e = k))"

section \<open>Parsing the prefix and the command\<close>

text \<open>\<open>ParsedComponentData\<close>: every component may be absent.\<close>

record parsedComponentData =
  pc_command :: "command option"
  pc_prefix :: "string option"
  pc_alias :: "string option"
  pc_content :: "string option"
  pc_afterPrefix :: "string option"

definition emptyParse :: parsedComponentData where
  "emptyParse =
     \<lparr> pc_command = None, pc_prefix = None, pc_alias = None, pc_content = None,
       pc_afterPrefix = None \<rparr>"

text \<open>\<open>findCommand\<close>: the module whose id the alias table gives for the lower-cased
  name.\<close>

definition findCommand :: "commandHandler \<Rightarrow> string \<Rightarrow> command option" where
  "findCommand h name =
     (case map_of (h_aliases h) (toLowerCase name) of
        None \<Rightarrow> None
      | Some i \<Rightarrow> map_of (h_modules h) i)"

text \<open>\<open>parseWithPrefix\<close>. The associated commands are \<open>None\<close> for a prefix of the
  handler and the ids of the overwrite for a prefix overwrite.\<close>

definition parseWithPrefix ::
  "commandHandler \<Rightarrow> message \<Rightarrow> string \<Rightarrow> string list option \<Rightarrow> parsedComponentData" where
  "parseWithPrefix h m prefix associatedCommands =
     (let lowerContent = toLowerCase (m_content m)
      in if \<not> startsWith lowerContent (toLowerCase prefix) then emptyParse
         else
           (let endOfPrefix = indexOf lowerContent (toLowerCase prefix) + int (length prefix);
                startOfArgs = searchNonSpace (slice (m_content m) endOfPrefix) + int (length prefix);
                alias = splitFirst (slice (m_content m) startOfArgs);
                command = findCommand h alias;
                content = trim (slice (m_content m) (startOfArgs + int (length alias) + 1));
                afterPrefix = trim (slice (m_content m) (int (length prefix)));
                withoutCommand =
                  \<lparr> pc_command = None, pc_prefix = Some prefix, pc_alias = Some alias,
                    pc_content = Some content, pc_afterPrefix = Some afterPrefix \<rparr>
            in case command of
                 None \<Rightarrow> withoutCommand
               | Some c \<Rightarrow>
                   (case associatedCommands of
                      None \<Rightarrow>
                        if c_prefix c \<noteq> None then withoutCommand
                        else withoutCommand\<lparr>pc_command := Some c\<rparr>
                    | Some cmds \<Rightarrow>
                        if c_id c \<notin> set cmds then withoutCommand
                        else withoutCommand\<lparr>pc_command := Some c\<rparr>)))"

text \<open>\<open>parseMultiplePrefixes\<close>: the first parse with a command, else the first with a
  prefix, else nothing.\<close>

definition parseMultiplePrefixes ::
  "commandHandler \<Rightarrow> message \<Rightarrow> (string \<times> string list option) list \<Rightarrow> parsedComponentData" where
  "parseMultiplePrefixes h m pairs =
     (let parses = map (\<lambda>(prefix, cmds). parseWithPrefix h m prefix cmds) pairs
      in case find (\<lambda>parsed. pc_command parsed \<noteq> None) parses of
           Some result \<Rightarrow> result
         | None \<Rightarrow>
             (case find (\<lambda>parsed. pc_prefix parsed \<noteq> None) parses of
                Some guess \<Rightarrow> guess
              | None \<Rightarrow> emptyParse))"

text \<open>\<open>Util.intoCallable(x)(message)\<close> and \<open>Util.intoArray\<close>: a supplier is called, a
  value stands for itself; a single string becomes an array of one.\<close>

definition intoCallable :: "prefixSource \<Rightarrow> message \<Rightarrow> prefixValue" where
  "intoCallable x m = (case x of PrefixValue v \<Rightarrow> v | PrefixSupplier f \<Rightarrow> f m)"

definition intoArray :: "prefixValue \<Rightarrow> string list" where
  "intoArray v = (case v of PrefixString p \<Rightarrow> [p] | PrefixArray ps \<Rightarrow> ps)"

text \<open>A prefix value is truthy unless it is the empty string.\<close>

definition truthyPrefix :: "prefixValue \<Rightarrow> bool" where
  "truthyPrefix v = (case v of PrefixString p \<Rightarrow> p \<noteq> [] | PrefixArray ps \<Rightarrow> True)"

text \<open>The two mention forms of the bot, \<open><@id>\<close> and \<open><@!id>\<close>; the template prints
  \<open>undefined\<close> when the client has no user.\<close>

definition mentions :: "commandHandler \<Rightarrow> string list" where
  "mentions h =
     (let i = (case clientUser (h_client h) of None \<Rightarrow> ''undefined'' | Some u \<Rightarrow> u)
      in [''<@'' @ i @ ''>'', ''<@!'' @ i @ ''>''])"

text \<open>The order of two strings by their code units: negative, zero or positive.\<close>

fun lexCompare :: "string \<Rightarrow> string \<Rightarrow> int" where
  "lexCompare [] [] = 0"
| "lexCompare [] (b # bs) = -1"
| "lexCompare (a # as) [] = 1"
| "lexCompare (a # as) (b # bs) =
     (if charCode a < charCode b then -1
      else if charCode b < charCode a then 1
      else lexCompare as bs)"

text \<open>Modelled from the spec: \<open>Util.prefixCompare\<close> is not among the sources. The spec
  says that among the prefixes the longest string sorts first unless one is the exact
  mention form of the bot, and that ties are broken by lexicographic order. Here the
  longer of two strings sorts first, two strings of one length sort lexicographically,
  and a mention form of the bot sorts before a string that is none; the strings that
  are mention forms are given by the first argument.\<close>

definition prefixCompare :: "(string \<Rightarrow> bool) \<Rightarrow> string \<Rightarrow> string \<Rightarrow> int" where
  "prefixCompare isMention a b =
     (if isMention a \<and> \<not> isMention b then -1
      else if isMention b \<and> \<not> isMention a then 1
      else if length a = length b then lexCompare a b
      else int (length b) - int (length a))"

text \<open>The array \<open>prefixes\<close> of \<open>parseCommand\<close> after \<open>prefixes.sort(Util.prefixCompare)\<close>:
  the prefixes of the handler's own option, with the two mention forms put in front
  when the prefix value is truthy, sorted.\<close>

definition candidatePrefixes :: "commandHandler \<Rightarrow> message \<Rightarrow> string list" where
  "candidatePrefixes h m =
     (let allowMention = intoCallable (h_prefix h) m;
          prefixes = intoArray allowMention;
          prefixes = (if truthyPrefix allowMention then mentions h @ prefixes else prefixes)
      in sortBy (prefixCompare (\<lambda>p. p \<in> set (mentions h))) prefixes)"

text \<open>\<open>parseCommand\<close>: the sorted prefixes are tried in their order, none with
  associated commands.\<close>

definition parseCommand :: "commandHandler \<Rightarrow> message \<Rightarrow> parsedComponentData" where
  "parseCommand h m = parseMultiplePrefixes h m (map (\<lambda>p. (p, None)) (candidatePrefixes h m))"

text \<open>\<open>parseCommandOverwrittenPrefixes\<close>: the prefixes of the overwrites, each with the
  commands of its overwrite, sorted by the prefix and tried in that order.\<close>

definition parseCommandOverwrittenPrefixes :: "commandHandler \<Rightarrow> message \<Rightarrow> parsedComponentData" where
  "parseCommandOverwrittenPrefixes h m =
     (if h_prefixes h = [] then emptyParse
      else
        (let pairs = concat (map (\<lambda>(provider, cmds).
                                    map (\<lambda>p. (p, Some cmds)) (intoArray (intoCallable provider m)))
                               (h_prefixes h));
             sorted = sortBy (\<lambda>a b. prefixCompare (\<lambda>p. p \<in> set (mentions h)) (fst a) (fst b)) pairs
         in parseMultiplePrefixes h m sorted))"

section \<open>The inhibitor stages of the command handler\<close>

text \<open>\<open>(Inl e, s)\<close> is a throw in state \<open>s\<close>. \<open>runAllTypeInhibitors\<close> skips the check for
  an ongoing prompt when \<open>slash\<close> is true. \<open>runPostTypeInhibitors\<close> and
  \<open>runPermissionChecks\<close> use \<open>slash\<close> only to choose between two events and are called
  only with its default, \<open>false\<close>, also by \<open>handleSlash\<close>; it is fixed in them.\<close>

definition inhibitorTest ::
  "commandHandler \<Rightarrow> string \<Rightarrow> message \<Rightarrow> command option \<Rightarrow> error + string option" where
  "inhibitorTest h ty m c =
     (case h_inhibitorHandler h of None \<Rightarrow> Inr None | Some modules \<Rightarrow> test modules ty m c)"

definition hasPrompt :: "hstate \<Rightarrow> channel \<Rightarrow> user \<Rightarrow> bool" where
  "hasPrompt s ch u =
     (case prompts s (channel_id ch) of None \<Rightarrow> False | Some users \<Rightarrow> user_id u \<in> users)"

definition runAllTypeInhibitors ::
  "commandHandler \<Rightarrow> message \<Rightarrow> bool \<Rightarrow> hstate \<Rightarrow> (error + bool) \<times> hstate" where
  "runAllTypeInhibitors h m slash s =
     (case inhibitorTest h ''all'' m None of
        Inl e \<Rightarrow> (Inl e, s)
      | Inr (Some r) \<Rightarrow> (Inr True, emit (MESSAGE_BLOCKED m (Custom r)) s)
      | Inr None \<Rightarrow>
          (case m_author m of
             None \<Rightarrow> (Inr True, emit (MESSAGE_BLOCKED m (BuiltIn AUTHOR_NOT_FOUND)) s)
           | Some a \<Rightarrow>
               if h_blockClient h \<and> Some (user_id a) = clientUser (h_client h)
               then (Inr True, emit (MESSAGE_BLOCKED m (BuiltIn CLIENT)) s)
               else if h_blockBots h \<and> user_bot a
               then (Inr True, emit (MESSAGE_BLOCKED m (BuiltIn BOT)) s)
               else if \<not> slash \<and> hasPrompt s (m_channel m) a
               then (Inr True, emit (IN_PROMPT m) s)
               else (Inr False, s)))"

definition runPreTypeInhibitors ::
  "commandHandler \<Rightarrow> message \<Rightarrow> hstate \<Rightarrow> (error + bool) \<times> hstate" where
  "runPreTypeInhibitors h m s =
     (case inhibitorTest h ''pre'' m None of
        Inl e \<Rightarrow> (Inl e, s)
      | Inr (Some r) \<Rightarrow> (Inr True, emit (MESSAGE_BLOCKED m (Custom r)) s)
      | Inr None \<Rightarrow> (Inr False, s))"

text \<open>\<open>permissionsFor(...)?.missing(required)\<close>: the required permissions that are not
  held; nothing when \<open>permissionsFor\<close> gave nothing.\<close>

definition missingPermissions :: "string list option \<Rightarrow> string list \<Rightarrow> string list" where
  "missingPermissions held required =
     (case held of None \<Rightarrow> [] | Some ps \<Rightarrow> filter (\<lambda>p. p \<notin> set ps) required)"

text \<open>Whether the permission ignorer exempts the author. An array or a single id is
  compared with \<open>message.author.id\<close>, which throws when the message has no author.\<close>

definition ignoredForPermissions :: "ignoreCheck \<Rightarrow> message \<Rightarrow> string \<Rightarrow> error + bool" where
  "ignoredForPermissions ignorer m cid =
     (case ignorer of
        IgnoreFn f \<Rightarrow> Inr (f m cid)
      | IgnoreIds xs \<Rightarrow>
          (case m_author m of None \<Rightarrow> Inl TypeError | Some a \<Rightarrow> Inr (user_id a \<in> set xs))
      | IgnoreId i \<Rightarrow>
          (case m_author m of None \<Rightarrow> Inl TypeError | Some a \<Rightarrow> Inr (user_id a = i)))"

text \<open>The second half of \<open>runPermissionChecks\<close>: the user's permissions.\<close>

definition userPermissionChecks ::
  "commandHandler \<Rightarrow> message \<Rightarrow> command \<Rightarrow> hstate \<Rightarrow> (error + bool) \<times> hstate" where
  "userPermissionChecks h m c s =
     (case c_userPermissions c of
        None \<Rightarrow> (Inr False, s)
      | Some check \<Rightarrow>
          (case ignoredForPermissions (orHandler (c_ignorePermissions c) (h_ignorePermissions h))
                  m (c_id c) of
             Inl e \<Rightarrow> (Inl e, s)
           | Inr True \<Rightarrow> (Inr False, s)
           | Inr False \<Rightarrow>
               (case check of
                  PermissionSupplier f \<Rightarrow>
                    (case f m of
                       Inl e \<Rightarrow> (Inl e, s)
                     | Inr (Some missing) \<Rightarrow>
                         (Inr True, emit (MISSING_PERMISSIONS m (c_id c) ''user'' missing) s)
                     | Inr None \<Rightarrow> (Inr False, s))
                | Permissions required \<Rightarrow>
                    if m_guild m \<noteq> None
                    then (if channel_isDM (m_channel m) then (Inr False, s)
                          else (let missing = missingPermissions (m_authorPermissions m) required
                                in if missing \<noteq> []
                                   then (Inr True,
                                         emit (MISSING_PERMISSIONS m (c_id c) ''user'' missing) s)
                                   else (Inr False, s)))
                    else (Inr False, s))))"

text \<open>\<open>runPermissionChecks\<close>: the client's permissions, then the user's.\<close>

definition runPermissionChecks ::
  "commandHandler \<Rightarrow> message \<Rightarrow> command \<Rightarrow> hstate \<Rightarrow> (error + bool) \<times> hstate" where
  "runPermissionChecks h m c s =
     (case c_clientPermissions c of
        None \<Rightarrow> userPermissionChecks h m c s
      | Some (PermissionSupplier f) \<Rightarrow>
          (case f m of
             Inl e \<Rightarrow> (Inl e, s)
           | Inr (Some missing) \<Rightarrow>
               (Inr True, emit (MISSING_PERMISSIONS m (c_id c) ''client'' missing) s)
           | Inr None \<Rightarrow> userPermissionChecks h m c s)
      | Some (Permissions required) \<Rightarrow>
          if m_guild m \<noteq> None
          then (if channel_isDM (m_channel m) then (Inr False, s)
                else (let missing = missingPermissions (m_clientPermissions m) required
                      in if missing \<noteq> []
                         then (Inr True,
                               emit (MISSING_PERMISSIONS m (c_id c) ''client'' missing) s)
                         else userPermissionChecks h m c s))
          else userPermissionChecks h m c s)"

text \<open>The end of \<open>runPostTypeInhibitors\<close>, after the built-in checks: the custom post
  inhibitors, the permission checks in their second place (when the built-in ones are
  skipped and no inhibitor blocked), the block by an inhibitor, and the cooldown. The
  command is absent when the handler was given none; reading a field of it throws.\<close>

definition runCustomPostInhibitors ::
  "commandHandler \<Rightarrow> message \<Rightarrow> command option \<Rightarrow> hstate \<Rightarrow> (error + bool) \<times> hstate" where
  "runCustomPostInhibitors h m c s =
     (case inhibitorTest h ''post'' m c of
        Inl e \<Rightarrow> (Inl e, s)
      | Inr r \<Rightarrow>
          (case (if h_skipBuiltInPostInhibitors h \<and> r = None
                 then (case c of
                         None \<Rightarrow> (Inl TypeError, s)
                       | Some cmd \<Rightarrow> runPermissionChecks h m cmd s)
                 else (Inr False, s)) of
             (Inl e, s1) \<Rightarrow> (Inl e, s1)
           | (Inr True, s1) \<Rightarrow> (Inr True, s1)
           | (Inr False, s1) \<Rightarrow>
               (case r of
                  Some text \<Rightarrow>
                    (Inr True, emit (COMMAND_BLOCKED m (map_option c_id c) (Custom text)) s1)
                | None \<Rightarrow>
                    (case c of
                       None \<Rightarrow> (Inl TypeError, s1)
                     | Some cmd \<Rightarrow>
                         (let (blocked, s2) = runCooldowns h m cmd s1 in (Inr blocked, s2))))))"

definition runPostTypeInhibitors ::
  "commandHandler \<Rightarrow> message \<Rightarrow> command option \<Rightarrow> hstate \<Rightarrow> (error + bool) \<times> hstate" where
  "runPostTypeInhibitors h m c s =
     (if \<not> h_skipBuiltInPostInhibitors h
      then
        (case c of
           None \<Rightarrow> (Inl TypeError, s)
         | Some cmd \<Rightarrow>
             (let author = map_option user_id (m_author m);
                  blocked = (\<lambda>r. (Inr True, emit (COMMAND_BLOCKED m (Some (c_id cmd)) (BuiltIn r)) s))
              in if c_ownerOnly cmd \<and> \<not> isOwner (h_client h) author then blocked OWNER
                 else if c_superUserOnly cmd \<and> \<not> isSuperUser (h_client h) author
                 then blocked SUPER_USER
                 else if c_channel cmd = Some GuildOnly \<and> m_guild m = None then blocked GUILD
                 else if c_channel cmd = Some DmOnly \<and> m_guild m \<noteq> None then blocked DM
                 else if c_onlyNsfw cmd \<and> \<not> channel_nsfw (m_channel m) then blocked NOT_NSFW
                 else
                   (case runPermissionChecks h m cmd s of
                      (Inl e, s1) \<Rightarrow> (Inl e, s1)
                    | (Inr True, s1) \<Rightarrow> (Inr True, s1)
                    | (Inr False, s1) \<Rightarrow> runCustomPostInhibitors h m c s1)))
      else runCustomPostInhibitors h m c s)"

section \<open>Running a command\<close>

text \<open>\<open>runCommand\<close> emits the started event and calls \<open>exec\<close>; when the promise of
  \<open>exec\<close> settles it emits the finished event, or throws what \<open>exec\<close> threw. The two
  halves are separate because other handlings can run between them. The interval that
  shows the typing indicator is outside the model.\<close>

definition startCommand :: "message \<Rightarrow> command \<Rightarrow> args \<Rightarrow> hstate \<Rightarrow> hstate" where
  "startCommand m c a s =
     s\<lparr>trace := trace s @ [Emit (COMMAND_STARTED m (c_id c) a), Exec (c_id c) m a]\<rparr>"

definition finishCommand ::
  "message \<Rightarrow> command \<Rightarrow> args \<Rightarrow> error + string \<Rightarrow> hstate \<Rightarrow> (error + unit) \<times> hstate" where
  "finishCommand m c a result s =
     (case result of
        Inr ret \<Rightarrow> (Inr (), emit (COMMAND_FINISHED m (c_id c) a ret) s)
      | Inl e \<Rightarrow> (Inl e, s))"

definition runCommand :: "message \<Rightarrow> command \<Rightarrow> args \<Rightarrow> hstate \<Rightarrow> (error + unit) \<times> hstate" where
  "runCommand m c a s = finishCommand m c a (c_exec c m a) (startCommand m c a s)"

section \<open>handleDirectCommand\<close>

text \<open>A value is truthy as a timestamp unless it is \<open>null\<close> or 0, and as a key unless
  it is \<open>null\<close> or the empty string.\<close>

definition truthyTime :: "int option \<Rightarrow> bool" where
  "truthyTime t = (case t of None \<Rightarrow> False | Some n \<Rightarrow> n \<noteq> 0)"

definition truthyKey :: "string option \<Rightarrow> bool" where
  "truthyKey k = (case k of None \<Rightarrow> False | Some x \<Rightarrow> x \<noteq> [])"

text \<open>How a part of the handling ends: it returns a value (\<open>None\<close> for \<open>null\<close>), it
  throws inside the \<open>try\<close>, or the handling goes on.\<close>

datatype 'a outcome = Return "bool option" | Thrown error | Next 'a

text \<open>The start of \<open>handleDirectCommand\<close>: unless checks are ignored, the edited
  message of a command that is not editable returns \<open>false\<close> and so does a block by the
  post inhibitors; then \<open>before\<close> runs and the arguments are parsed.\<close>

definition prepareCommand ::
  "commandHandler \<Rightarrow> message \<Rightarrow> string \<Rightarrow> command option \<Rightarrow> bool \<Rightarrow> hstate
     \<Rightarrow> (command \<times> args) outcome \<times> hstate" where
  "prepareCommand h m content c ignore s =
     (let (checked, s1) =
            (if ignore then (Next (), s)
             else if truthyTime (m_editedTimestamp m)
                     \<and> (case c of None \<Rightarrow> True | Some cmd \<Rightarrow> \<not> c_editable cmd)
             then (case c of None \<Rightarrow> (Thrown TypeError, s) | Some cmd \<Rightarrow> (Return (Some False), s))
             else (case runPostTypeInhibitors h m c s of
                     (Inl e, s') \<Rightarrow> (Thrown e, s')
                   | (Inr True, s') \<Rightarrow> (Return (Some False), s')
                   | (Inr False, s') \<Rightarrow> (Next (), s')))
      in case checked of
           Return r \<Rightarrow> (Return r, s1)
         | Thrown e \<Rightarrow> (Thrown e, s1)
         | Next u \<Rightarrow>
             (case c of
                None \<Rightarrow> (Thrown TypeError, s1)
              | Some cmd \<Rightarrow>
                  (case c_before cmd m of
                     Some e \<Rightarrow> (Thrown e, s1)
                   | None \<Rightarrow>
                       (case c_parse cmd m content of
                          Inl e \<Rightarrow> (Thrown e, s1)
                        | Inr a \<Rightarrow> (Next (cmd, a), s1)))))"

text \<open>The lock. \<open>Locked\<close>: the key is in the command's lock set, the locked event is
  emitted and the local \<open>key\<close> is reset. \<open>Proceed key\<close>: the handling goes on with this
  value of \<open>key\<close>, which is in the lock set now when it is truthy.\<close>

datatype lockOutcome = Locked | Proceed "string option"

definition acquireLock ::
  "message \<Rightarrow> command \<Rightarrow> args \<Rightarrow> hstate \<Rightarrow> (error + lockOutcome) \<times> hstate" where
  "acquireLock m c a s =
     (case (case c_lock c of None \<Rightarrow> Inr None | Some supplier \<Rightarrow> supplier m a) of
        Inl e \<Rightarrow> (Inl e, s)
      | Inr key \<Rightarrow>
          if truthyKey key
          then (case key of
                  None \<Rightarrow> (Inr (Proceed key), s)
                | Some k \<Rightarrow>
                    if k \<in> lockers s (c_id c)
                    then (Inr Locked, emit (COMMAND_LOCKED m (c_id c)) s)
                    else (Inr (Proceed key),
                          s\<lparr>lockers := (lockers s)(c_id c := insert k (lockers s (c_id c)))\<rparr>))
          else (Inr (Proceed key), s))"

text \<open>The \<open>finally\<close> block: \<open>if (key) command.locker?.delete(key)\<close>.\<close>

definition releaseLock :: "command \<Rightarrow> string option \<Rightarrow> hstate \<Rightarrow> hstate" where
  "releaseLock c key s =
     (case key of
        None \<Rightarrow> s
      | Some k \<Rightarrow>
          if k \<noteq> [] then s\<lparr>lockers := (lockers s)(c_id c := lockers s (c_id c) - {k})\<rparr>
          else s)"

text \<open>The \<open>catch\<close> block: \<open>emitError\<close>, then \<open>null\<close> unless it threw again.\<close>

definition catchError ::
  "commandHandler \<Rightarrow> error \<Rightarrow> message \<Rightarrow> string option \<Rightarrow> hstate
     \<Rightarrow> (error + bool option) \<times> hstate" where
  "catchError h e m c s =
     (case emitError h e m c s of
        (Inl e', s1) \<Rightarrow> (Inl e', s1)
      | (Inr u, s1) \<Rightarrow> (Inr None, s1))"

text \<open>From the parsed arguments to the call of \<open>exec\<close>: the lock unless checks are
  ignored, then the first half of \<open>runCommand\<close>. \<open>Inl\<close> is the result when the handling
  ends here (locked, or the key supplier threw); \<open>Inr key\<close> means that \<open>exec\<close> was
  called and the local \<open>key\<close> has this value.\<close>

definition beginCommand ::
  "commandHandler \<Rightarrow> message \<Rightarrow> command \<Rightarrow> args \<Rightarrow> bool \<Rightarrow> hstate
     \<Rightarrow> ((error + bool option) + string option) \<times> hstate" where
  "beginCommand h m c a ignore s =
     (case (if ignore then (Inr (Proceed None), s) else acquireLock m c a s) of
        (Inl e, s1) \<Rightarrow> (let (r, s2) = catchError h e m (Some (c_id c)) s1 in (Inl r, s2))
      | (Inr Locked, s1) \<Rightarrow> (Inl (Inr (Some True)), s1)
      | (Inr (Proceed key), s1) \<Rightarrow> (Inr key, startCommand m c a s1))"

text \<open>After \<open>exec\<close> settled with \<open>result\<close>: the second half of \<open>runCommand\<close>, the \<open>catch\<close>
  block when it threw, and the \<open>finally\<close> block.\<close>

definition completeCommand ::
  "commandHandler \<Rightarrow> message \<Rightarrow> command \<Rightarrow> args \<Rightarrow> string option \<Rightarrow> error + string \<Rightarrow> hstate
     \<Rightarrow> (error + bool option) \<times> hstate" where
  "completeCommand h m c a key result s =
     (case finishCommand m c a result s of
        (Inr u, s1) \<Rightarrow> (Inr (Some True), releaseLock c key s1)
      | (Inl e, s1) \<Rightarrow>
          (let (r, s2) = catchError h e m (Some (c_id c)) s1 in (r, releaseLock c key s2)))"

text \<open>One handling from the parsed arguments to its end, with nothing in between.\<close>

definition executeCommand ::
  "commandHandler \<Rightarrow> message \<Rightarrow> command \<Rightarrow> args \<Rightarrow> bool \<Rightarrow> hstate
     \<Rightarrow> (error + bool option) \<times> hstate" where
  "executeCommand h m c a ignore s =
     (case beginCommand h m c a ignore s of
        (Inl r, s1) \<Rightarrow> (r, s1)
      | (Inr key, s1) \<Rightarrow> completeCommand h m c a key (c_exec c m a) s1)"

section \<open>Regex and conditional commands\<close>

text \<open>The body that is run for each regex or conditional command that matched. Its
  promise is rejected (\<open>Some e\<close>) only when \<open>emitError\<close> threw again.\<close>

definition runTriggered ::
  "commandHandler \<Rightarrow> message \<Rightarrow> command \<Rightarrow> args \<Rightarrow> hstate \<Rightarrow> error option \<times> hstate" where
  "runTriggered h m c a s =
     (let failed = (\<lambda>e s'. case emitError h e m (Some (c_id c)) s' of
                              (Inl e', s'') \<Rightarrow> (Some e', s'')
                            | (Inr u, s'') \<Rightarrow> (None, s''))
      in case runPostTypeInhibitors h m (Some c) s of
           (Inl e, s1) \<Rightarrow> failed e s1
         | (Inr True, s1) \<Rightarrow> (None, s1)
         | (Inr False, s1) \<Rightarrow>
             (case c_before c m of
                Some e \<Rightarrow> failed e s1
              | None \<Rightarrow>
                  (case runCommand m c a s1 of
                     (Inl e, s2) \<Rightarrow> failed e s2
                   | (Inr u, s2) \<Rightarrow> (None, s2))))"

text \<open>The bodies of all matched commands, awaited together. They are run here one after
  the other in the order of the collection; the rejection is that of the first body in
  this order that was rejected.\<close>

fun runAllTriggered ::
  "commandHandler \<Rightarrow> message \<Rightarrow> (command \<times> args) list \<Rightarrow> hstate \<Rightarrow> error option \<times> hstate" where
  "runAllTriggered h m [] s = (None, s)"
| "runAllTriggered h m ((c, a) # rest) s =
     (let (r, s1) = runTriggered h m c a s;
          (rs, s2) = runAllTriggered h m rest s1
      in (case r of Some e \<Rightarrow> Some e | None \<Rightarrow> rs, s2))"

text \<open>The commands whose regular expression is tried (edited messages only for
  editable commands), and those among them that match, each with the match as its
  arguments.\<close>

definition hasRegexCommands ::
  "commandHandler \<Rightarrow> message \<Rightarrow> (command \<times> (message \<Rightarrow> (string \<times> string) list option)) list" where
  "hasRegexCommands h m =
     concat (map (\<lambda>(i, c).
                    if (if truthyTime (m_editedTimestamp m) then c_editable c else True)
                    then (case c_regex c of None \<Rightarrow> [] | Some regex \<Rightarrow> [(c, regex)])
                    else [])
               (h_modules h))"

definition matchedCommands :: "commandHandler \<Rightarrow> message \<Rightarrow> (command \<times> args) list" where
  "matchedCommands h m =
     concat (map (\<lambda>(c, regex). case regex m of None \<Rightarrow> [] | Some found \<Rightarrow> [(c, Args found)])
               (hasRegexCommands h m))"

definition handleRegexCommands ::
  "commandHandler \<Rightarrow> message \<Rightarrow> hstate \<Rightarrow> (error + bool) \<times> hstate" where
  "handleRegexCommands h m s =
     (if matchedCommands h m = [] then (Inr False, s)
      else (case runAllTriggered h m (matchedCommands h m) s of
              (Some e, s1) \<Rightarrow> (Inl e, s1)
            | (None, s1) \<Rightarrow> (Inr True, s1)))"

text \<open>The conditions of the candidates, awaited together: the commands whose condition
  is true, or the first throw.\<close>

fun trueCommands :: "message \<Rightarrow> command list \<Rightarrow> error + command list" where
  "trueCommands m [] = Inr []"
| "trueCommands m (c # cs) =
     (case c_condition c m of
        Inl e \<Rightarrow> Inl e
      | Inr cond \<Rightarrow>
          (case trueCommands m cs of
             Inl e \<Rightarrow> Inl e
           | Inr rest \<Rightarrow> Inr (if cond then c # rest else rest)))"

definition handleConditionalCommands ::
  "commandHandler \<Rightarrow> message \<Rightarrow> hstate \<Rightarrow> (error + bool) \<times> hstate" where
  "handleConditionalCommands h m s =
     (let candidates =
            filter (\<lambda>c. \<not> (truthyTime (m_editedTimestamp m) \<and> \<not> c_editable c))
              (map snd (h_modules h))
      in case trueCommands m candidates of
           Inl e \<Rightarrow> (Inl e, s)
         | Inr found \<Rightarrow>
             if found = [] then (Inr False, s)
             else (case runAllTriggered h m (map (\<lambda>c. (c, Args [])) found) s of
                     (Some e, s1) \<Rightarrow> (Inl e, s1)
                   | (None, s1) \<Rightarrow> (Inr True, s1)))"

definition handleRegexAndConditionalCommands ::
  "commandHandler \<Rightarrow> message \<Rightarrow> hstate \<Rightarrow> (error + bool) \<times> hstate" where
  "handleRegexAndConditionalCommands h m s =
     (case handleRegexCommands h m s of
        (Inl e, s1) \<Rightarrow> (Inl e, s1)
      | (Inr ran1, s1) \<Rightarrow>
          (case handleConditionalCommands h m s1 of
             (Inl e, s2) \<Rightarrow> (Inl e, s2)
           | (Inr ran2, s2) \<Rightarrow> (Inr (ran1 \<or> ran2), s2)))"

section \<open>handle and handleDirectCommand\<close>

text \<open>The parse that \<open>handle\<close> goes on with: that of the handler's prefixes, or that of
  the prefix overwrites when the first found no command and the second found one, or
  found a prefix where the first found none.\<close>

definition parseForHandle :: "commandHandler \<Rightarrow> message \<Rightarrow> parsedComponentData" where
  "parseForHandle h m =
     (let parsed = parseCommand h m
      in if pc_command parsed = None
         then (let overParsed = parseCommandOverwrittenPrefixes h m
               in if pc_command overParsed \<noteq> None
                     \<or> (pc_prefix parsed = None \<and> pc_prefix overParsed \<noteq> None)
                  then overParsed else parsed)
         else parsed)"

text \<open>The end of \<open>handle\<close>, given what the commands did: a throw goes to \<open>emitError\<close> and
  the result is \<open>null\<close> unless it threw again; \<open>false\<close> emits the invalid-message event.\<close>

definition finishHandle ::
  "commandHandler \<Rightarrow> message \<Rightarrow> (error + bool option) \<times> hstate \<Rightarrow> (error + bool option) \<times> hstate" where
  "finishHandle h m result =
     (case result of
        (Inl e, s) \<Rightarrow> catchError h e m None s
      | (Inr ranValue, s) \<Rightarrow>
          if ranValue = Some False then (Inr (Some False), emit (MESSAGE_INVALID m) s)
          else (Inr ranValue, s))"

text \<open>
  \<open>handle\<close> and \<open>handleDirectCommand\<close> call each other: a \<open>retry\<close> Flag hands another
  message to \<open>handle\<close>, and \<open>handle\<close> hands a parsed command to \<open>handleDirectCommand\<close>,
  which a \<open>continue\<close> Flag calls again for another command. Nothing bounds the chain, so
  the first argument counts the calls that may still be made and \<open>None\<close> is a
  handling that has not ended within them. The results of the calls for \<open>retry\<close> and
  \<open>continue\<close> are returned as they are (the promise is returned, not awaited); the
  result of the call from \<open>handle\<close> is awaited inside its \<open>try\<close>. Fetching the member
  and attaching the command util are outside the model.
\<close>

fun handle ::
  "nat \<Rightarrow> commandHandler \<Rightarrow> message \<Rightarrow> hstate \<Rightarrow> ((error + bool option) \<times> hstate) option"
and handleDirectCommand ::
  "nat \<Rightarrow> commandHandler \<Rightarrow> message \<Rightarrow> string \<Rightarrow> command option \<Rightarrow> bool \<Rightarrow> hstate
     \<Rightarrow> ((error + bool option) \<times> hstate) option"
where
  "handle 0 h m s = None"
| "handle (Suc n) h m s =
     (case runAllTypeInhibitors h m False s of
        (Inl e, s1) \<Rightarrow> Some (catchError h e m None s1)
      | (Inr True, s1) \<Rightarrow> Some (Inr (Some False), s1)
      | (Inr False, s1) \<Rightarrow>
          (case runPreTypeInhibitors h m s1 of
             (Inl e, s2) \<Rightarrow> Some (catchError h e m None s2)
           | (Inr True, s2) \<Rightarrow> Some (Inr (Some False), s2)
           | (Inr False, s2) \<Rightarrow>
               (let parsed = parseForHandle h m
                in case pc_command parsed of
                     None \<Rightarrow>
                       Some (finishHandle h m
                               (case handleRegexAndConditionalCommands h m s2 of
                                  (Inl e, s3) \<Rightarrow> (Inl e, s3)
                                | (Inr ranValue, s3) \<Rightarrow> (Inr (Some ranValue), s3)))
                   | Some c \<Rightarrow>
                       if c_slashOnly c
                       then Some (Inr (Some False), emit (SLASH_ONLY m (c_id c)) s2)
                       else (case handleDirectCommand n h m
                                    (case pc_content parsed of None \<Rightarrow> [] | Some x \<Rightarrow> x)
                                    (Some c) False s2 of
                               None \<Rightarrow> None
                             | Some result \<Rightarrow> Some (finishHandle h m result)))))"
| "handleDirectCommand 0 h m content c ignore s = None"
| "handleDirectCommand (Suc n) h m content c ignore s =
     (case prepareCommand h m content c ignore s of
        (Return r, s1) \<Rightarrow> Some (Inr r, s1)
      | (Thrown e, s1) \<Rightarrow> Some (catchError h e m (map_option c_id c) s1)
      | (Next (cmd, a), s1) \<Rightarrow>
          (case a of
             FlagValue Cancel \<Rightarrow>
               Some (Inr (Some True), emit (COMMAND_CANCELLED m (c_id cmd)) s1)
           | FlagValue (Retry m') \<Rightarrow>
               handle n h m' (emit (COMMAND_BREAKOUT m (c_id cmd) m') s1)
           | FlagValue (Continue name ign rest) \<Rightarrow>
               handleDirectCommand n h m rest (map_of (h_modules h) name) ign s1
           | Args parsed \<Rightarrow> Some (executeCommand h m cmd a ignore s1)))"

section \<open>handleSlash\<close>






section \<open>Handlings that overlap\<close>










section \<open>What a handling adds to the trace\<close>

text \<open>An action other than a call of \<open>exec\<close> with a Flag as its arguments.\<close>

definition flagFree :: "action \<Rightarrow> bool" where
  "flagFree x = (case x of Exec c m (FlagValue f) \<Rightarrow> False | _ \<Rightarrow> True)"

text \<open>The second state has the trace of the first and, after it, only such actions.\<close>

definition onlyAdds :: "hstate \<Rightarrow> hstate \<Rightarrow> bool" where
  "onlyAdds s s' = (\<exists>new. trace s' = trace s @ new \<and> list_all flagFree new)"

section \<open>Example configurations\<close>

definition exOwnerOnly :: contextMenuCommand where
  "exOwnerOnly =
     \<lparr> cm_id = ''ban'', cm_name = ''Ban'', cm_ownerOnly = True, cm_superUserOnly = False,
       cm_exec = (\<lambda>i. Inr ''done'') \<rparr>"

definition exContextHandler :: contextMenuCommandHandler where
  "exContextHandler =
     \<lparr> cmh_client = \<lparr> ownerID = One ''1'', superUserID = Many [], clientUser = Some ''9'' \<rparr>,
       cmh_modules = [exOwnerOnly], cmh_errorListeners = 0 \<rparr>"

definition exInteraction :: interaction where
  "exInteraction = \<lparr> commandName = ''Ban'', interactionUser = ''2'' \<rparr>"

definition exUser :: user where
  "exUser = \<lparr> user_id = ''2'', user_bot = False \<rparr>"

definition exChannel :: channel where
  "exChannel = \<lparr> channel_id = ''5'', channel_nsfw = False, channel_isDM = False \<rparr>"

definition exMessage :: message where
  "exMessage =
     \<lparr> m_id = ''100'', m_author = Some exUser, m_content = ''!!ping'',
       m_createdTimestamp = 1000, m_editedTimestamp = None, m_guild = Some ''7'',
       m_channel = exChannel, m_clientPermissions = None, m_authorPermissions = None \<rparr>"

definition exInhibitors :: "inhibitor list" where
  "exInhibitors =
     [\<lparr> inh_id = ''low'', inh_type = ''post'', inh_priority = 0, inh_reason = ''low'',
        inh_exec = (\<lambda>m c. Inr True) \<rparr>,
      \<lparr> inh_id = ''other'', inh_type = ''pre'', inh_priority = 9, inh_reason = ''other'',
        inh_exec = (\<lambda>m c. Inr True) \<rparr>,
      \<lparr> inh_id = ''first'', inh_type = ''post'', inh_priority = 5, inh_reason = ''first'',
        inh_exec = (\<lambda>m c. Inr True) \<rparr>,
      \<lparr> inh_id = ''quiet'', inh_type = ''post'', inh_priority = 8, inh_reason = ''quiet'',
        inh_exec = (\<lambda>m c. Inr False) \<rparr>,
      \<lparr> inh_id = ''second'', inh_type = ''post'', inh_priority = 5, inh_reason = ''second'',
        inh_exec = (\<lambda>m c. Inr True) \<rparr>]"

definition exMessageAt :: "int \<Rightarrow> message" where
  "exMessageAt t = exMessage\<lparr>m_createdTimestamp := t\<rparr>"

definition exPing :: command where
  "exPing = (newCommand ''ping'')
     \<lparr> c_cooldown := Some 1000, c_exec := (\<lambda>m a. Inr ''pong'') \<rparr>"

definition exHandler :: commandHandler where
  "exHandler =
     \<lparr> h_client = \<lparr> ownerID = One ''1'', superUserID = Many [], clientUser = Some ''9'' \<rparr>,
       h_modules = [(''ping'', exPing)],
       h_aliases = [(''ping'', ''ping'')],
       h_prefix = PrefixValue (PrefixArray [''!'', ''!!'']),
       h_prefixes = [],
       h_inhibitorHandler = None,
       h_blockClient = True, h_blockBots = True, h_skipBuiltInPostInhibitors = False,
       h_defaultCooldown = 0,
       h_ignoreCooldown = IgnoreId ''1'',
       h_ignorePermissions = IgnoreIds [],
       h_execSlash = False, h_errorListeners = 1 \<rparr>"

definition exPingTwice :: command where
  "exPingTwice = exPing\<lparr> c_ratelimit := 2 \<rparr>"

text \<open>A command with a cooldown of 30 days, and one whose id is a name of
  \<open>Object.prototype\<close>.\<close>

definition exMonthly :: command where
  "exMonthly = (newCommand ''monthly'')
     \<lparr> c_cooldown := Some 2592000000, c_exec := (\<lambda>m a. Inr ''done'') \<rparr>"

definition exConstructor :: command where
  "exConstructor = (newCommand ''constructor'')
     \<lparr> c_cooldown := Some 1000, c_exec := (\<lambda>m a. Inr ''done'') \<rparr>"

definition exBangHandler :: commandHandler where
  "exBangHandler = exHandler\<lparr> h_aliases := [(''!ping'', ''ping'')] \<rparr>"



definition exCancel :: command where
  "exCancel = (newCommand ''cancel'')
     \<lparr> c_parse := (\<lambda>m s. Inr (FlagValue Cancel)), c_exec := (\<lambda>m a. Inr ''ran'') \<rparr>"

definition exRetry :: command where
  "exRetry = (newCommand ''retry'')
     \<lparr> c_parse := (\<lambda>m s. Inr (FlagValue (Retry (exMessage\<lparr>m_content := ''!ping''\<rparr>)))),
       c_exec := (\<lambda>m a. Inr ''ran'') \<rparr>"

definition exB :: command where
  "exB = (newCommand ''b'')
     \<lparr> c_cooldown := Some 1000, c_parse := (\<lambda>m s. Inr (Args [(''text'', s)])),
       c_exec := (\<lambda>m a. Inr ''done'') \<rparr>"

definition exContinue :: "bool \<Rightarrow> command" where
  "exContinue ign = (newCommand ''a'')
     \<lparr> c_parse := (\<lambda>m s. Inr (FlagValue (Continue ''b'' ign ''x''))),
       c_exec := (\<lambda>m a. Inr ''ran'') \<rparr>"

definition exFlagHandler :: commandHandler where
  "exFlagHandler =
     exHandler\<lparr> h_modules := [(''ping'', exPing), (''cancel'', exCancel), (''retry'', exRetry),
                              (''a'', exContinue False), (''b'', exB)],
                h_aliases := [(''ping'', ''ping''), (''cancel'', ''cancel''), (''retry'', ''retry''),
                              (''a'', ''a''), (''b'', ''b'')] \<rparr>"









text \<open>A blocking inhibitor next to one that has only the \<open>exec\<close> of the base class, which
  throws.\<close>

definition exThrowing :: "inhibitor list" where
  "exThrowing =
     [\<lparr> inh_id = ''blocks'', inh_type = ''post'', inh_priority = 1, inh_reason = ''blocks'',
        inh_exec = (\<lambda>m c. Inr True) \<rparr>,
      \<lparr> inh_id = ''boom'', inh_type = ''post'', inh_priority = 0, inh_reason = ''boom'',
        inh_exec = (\<lambda>m c. Inl (CitrusError ''NOT_IMPLEMENTED'')) \<rparr>]"


section \<open>Stable sorting\<close>

lemma sortBy_Cons: "sortBy cmp (x # xs) = insertBy cmp x (sortBy cmp xs)"
  by (simp add: sortBy_def)

lemma sortBy_Nil: "sortBy cmp [] = []"
  by (simp add: sortBy_def)

lemma sortBy_descending_head:
  fixes p :: "'a \<Rightarrow> int"
  assumes "xs \<noteq> []"
  shows "\<exists>pre b post rest. xs = pre @ b # post
           \<and> (\<forall>x\<in>set pre. p x < p b) \<and> (\<forall>x\<in>set post. p x \<le> p b)
           \<and> sortBy (\<lambda>a b. p b - p a) xs = b # rest"
  using assms
proof (induction xs)
  case Nil
  then show ?case by simp
next
  case (Cons x xs)
  show ?case
  proof (cases "xs = []")
    case True
    then have "sortBy (\<lambda>a b. p b - p a) (x # xs) = [x]"
      by (simp add: sortBy_Cons sortBy_Nil)
    with True show ?thesis by fastforce
  next
    case False
    from Cons.IH [OF False] obtain pre b post rest where
      xs: "xs = pre @ b # post" and lo: "\<forall>y\<in>set pre. p y < p b"
      and hi: "\<forall>y\<in>set post. p y \<le> p b"
      and srt: "sortBy (\<lambda>a b. p b - p a) xs = b # rest"
      by blast
    show ?thesis
    proof (cases "p b \<le> p x")
      case True
      have "sortBy (\<lambda>a b. p b - p a) (x # xs) = x # b # rest"
        using True by (simp add: sortBy_Cons srt)
      moreover have "\<forall>y\<in>set xs. p y \<le> p x"
        using xs lo hi True by fastforce
      ultimately have "x # xs = [] @ x # xs \<and> (\<forall>y\<in>set []. p y < p x)
          \<and> (\<forall>y\<in>set xs. p y \<le> p x)
          \<and> sortBy (\<lambda>a b. p b - p a) (x # xs) = x # (b # rest)"
        by simp
      then show ?thesis by blast
    next
      case False
      have "sortBy (\<lambda>a b. p b - p a) (x # xs) = b # insertBy (\<lambda>a b. p b - p a) x rest"
        using False by (simp add: sortBy_Cons srt)
      moreover have "x # xs = (x # pre) @ b # post" using xs by simp
      moreover have "\<forall>y\<in>set (x # pre). p y < p b" using lo False by simp
      ultimately show ?thesis using hi by blast
    qed
  qed
qed

lemma runInhibitors_total:
  assumes "\<forall>i\<in>set is. \<exists>b. inh_exec i m c = Inr b"
  shows "runInhibitors is m c = Inr (filter (\<lambda>i. inh_exec i m c = Inr True) is)"
  using assms
  by (induction "is") auto

lemma runInhibitors_throws:
  assumes "\<exists>i\<in>set is. \<exists>e. inh_exec i m c = Inl e"
  shows "\<exists>i\<in>set is. \<exists>e. inh_exec i m c = Inl e \<and> runInhibitors is m c = Inl e"
  using assms
proof (induction "is")
  case Nil
  then show ?case by simp
next
  case (Cons i rest)
  show ?case
  proof (cases "inh_exec i m c")
    case (Inl e)
    then show ?thesis by auto
  next
    case (Inr b)
    then have "\<exists>j\<in>set rest. \<exists>e. inh_exec j m c = Inl e" using Cons.prems by auto
    from Cons.IH [OF this] obtain j e where "j \<in> set rest" "inh_exec j m c = Inl e"
      "runInhibitors rest m c = Inl e"
      by blast
    then show ?thesis using Inr by auto
  qed
qed

section \<open>Inhibitors: the blocking inhibitor of highest priority\<close>

text \<open>
  Claim C7, as amended. For every stage (\<open>all\<close>, \<open>pre\<close> or \<open>post\<close>) and every message,
  \<open>InhibitorHandler.test\<close> runs the loaded inhibitors of that stage and awaits them all.
  When none of them throws, it returns \<open>null\<close> when none of them blocks, and otherwise
  the reason of the blocking inhibitor with the highest priority, the earliest loaded
  among equals: the blocking inhibitors are split around the chosen one, those before it
  have a strictly lower priority, those after it none higher. When one of them throws,
  the test is rejected with an error that an inhibitor of the stage threw, whether or
  not another one blocks.
\<close>

theorem test_highest_priority:
  "((\<forall>i\<in>set modules. inh_type i = ty \<longrightarrow> (\<exists>b. inh_exec i m c = Inr b))
      \<longrightarrow> (filter (\<lambda>i. inh_type i = ty \<and> inh_exec i m c = Inr True) modules = []
            \<longrightarrow> test modules ty m c = Inr None)
        \<and> (filter (\<lambda>i. inh_type i = ty \<and> inh_exec i m c = Inr True) modules \<noteq> []
            \<longrightarrow> (\<exists>pre b post.
                   filter (\<lambda>i. inh_type i = ty \<and> inh_exec i m c = Inr True) modules
                     = pre @ b # post
                   \<and> (\<forall>x\<in>set pre. inh_priority x < inh_priority b)
                   \<and> (\<forall>x\<in>set post. inh_priority x \<le> inh_priority b)
                   \<and> test modules ty m c = Inr (Some (inh_reason b)))))
   \<and> ((\<exists>i\<in>set modules. inh_type i = ty \<and> (\<exists>e. inh_exec i m c = Inl e))
      \<longrightarrow> (\<exists>i\<in>set modules. \<exists>e. inh_type i = ty \<and> inh_exec i m c = Inl e
                                \<and> test modules ty m c = Inl e))"
proof -
  let ?stage = "filter (\<lambda>i. inh_type i = ty) modules"
  let ?blocking = "filter (\<lambda>i. inh_type i = ty \<and> inh_exec i m c = Inr True) modules"
  have blocking: "filter (\<lambda>i. inh_exec i m c = Inr True) ?stage = ?blocking"
    by (simp add: conj_commute)
  have returns: "(?blocking = [] \<longrightarrow> test modules ty m c = Inr None)
        \<and> (?blocking \<noteq> []
            \<longrightarrow> (\<exists>pre b post. ?blocking = pre @ b # post
                   \<and> (\<forall>x\<in>set pre. inh_priority x < inh_priority b)
                   \<and> (\<forall>x\<in>set post. inh_priority x \<le> inh_priority b)
                   \<and> test modules ty m c = Inr (Some (inh_reason b))))"
    if nothrow: "\<forall>i\<in>set modules. inh_type i = ty \<longrightarrow> (\<exists>b. inh_exec i m c = Inr b)"
  proof -
    have run: "runInhibitors ?stage m c = Inr ?blocking"
      using runInhibitors_total [of ?stage m c] nothrow blocking by simp
    have none: "?blocking = [] \<Longrightarrow> test modules ty m c = Inr None"
      using run by (simp add: test_def Let_def)
    have some: "\<exists>pre b post. ?blocking = pre @ b # post
                  \<and> (\<forall>x\<in>set pre. inh_priority x < inh_priority b)
                  \<and> (\<forall>x\<in>set post. inh_priority x \<le> inh_priority b)
                  \<and> test modules ty m c = Inr (Some (inh_reason b))"
      if ne: "?blocking \<noteq> []"
    proof -
      from sortBy_descending_head [OF ne, of inh_priority] obtain pre b post rest where
        split: "?blocking = pre @ b # post"
        and lo: "\<forall>x\<in>set pre. inh_priority x < inh_priority b"
        and hi: "\<forall>x\<in>set post. inh_priority x \<le> inh_priority b"
        and srt: "sortBy (\<lambda>a b. inh_priority b - inh_priority a) ?blocking = b # rest"
        by blast
      have stage_ne: "?stage \<noteq> []" and mod_ne: "modules \<noteq> []"
        using ne by (auto simp: filter_empty_conv)
      have "test modules ty m c = Inr (Some (inh_reason b))"
        using run ne stage_ne mod_ne srt by (simp add: test_def Let_def)
      with split lo hi show ?thesis by blast
    qed
    from none some show ?thesis by blast
  qed
  have rejects: "\<exists>i\<in>set modules. \<exists>e. inh_type i = ty \<and> inh_exec i m c = Inl e
                                \<and> test modules ty m c = Inl e"
    if throws: "\<exists>i\<in>set modules. inh_type i = ty \<and> (\<exists>e. inh_exec i m c = Inl e)"
  proof -
    from throws have "\<exists>i\<in>set ?stage. \<exists>e. inh_exec i m c = Inl e" by auto
    from runInhibitors_throws [OF this] obtain i e where
      i: "i \<in> set ?stage" "inh_exec i m c = Inl e" "runInhibitors ?stage m c = Inl e"
      by blast
    have stage_ne: "?stage \<noteq> []" and mod_ne: "modules \<noteq> []"
      using i(1) by (auto simp: filter_empty_conv)
    have "test modules ty m c = Inl e"
      using i(3) stage_ne mod_ne by (simp add: test_def Let_def)
    with i show ?thesis by auto
  qed
  from returns rejects show ?thesis by blast
qed

text \<open>Of the three blocking inhibitors of the stage \<open>post\<close>, the two of priority 5 come
  before the one of priority 0, and the first of them gives the reason. Next to a
  throwing inhibitor the test is rejected with its error.\<close>

theorem test_highest_priority_witness:
  "map inh_id (filter (\<lambda>i. inh_type i = ''post'' \<and> inh_exec i exMessage None = Inr True) exInhibitors)
     = [''low'', ''first'', ''second'']
   \<and> (\<exists>pre b post.
         filter (\<lambda>i. inh_type i = ''post'' \<and> inh_exec i exMessage None = Inr True) exInhibitors
           = pre @ b # post
         \<and> (\<forall>x\<in>set pre. inh_priority x < inh_priority b)
         \<and> (\<forall>x\<in>set post. inh_priority x \<le> inh_priority b)
         \<and> test exInhibitors ''post'' exMessage None = Inr (Some (inh_reason b)))
   \<and> test exInhibitors ''post'' exMessage None = Inr (Some ''first'')
   \<and> (\<exists>i\<in>set exThrowing. \<exists>e. inh_type i = ''post'' \<and> inh_exec i exMessage None = Inl e
                              \<and> test exThrowing ''post'' exMessage None = Inl e)"
proof -
  have nothrow: "\<forall>i\<in>set exInhibitors. inh_type i = ''post''
                   \<longrightarrow> (\<exists>b. inh_exec i exMessage None = Inr b)"
    by (auto simp: exInhibitors_def)
  have ids: "map inh_id (filter (\<lambda>i. inh_type i = ''post'' \<and> inh_exec i exMessage None = Inr True)
              exInhibitors) = [''low'', ''first'', ''second'']"
    by (simp add: exInhibitors_def)
  then have ne: "filter (\<lambda>i. inh_type i = ''post'' \<and> inh_exec i exMessage None = Inr True)
              exInhibitors \<noteq> []"
    by auto
  have val: "test exInhibitors ''post'' exMessage None = Inr (Some ''first'')"
    by (simp add: test_def exInhibitors_def sortBy_def)
  have throws: "\<exists>i\<in>set exThrowing. inh_type i = ''post'' \<and> (\<exists>e. inh_exec i exMessage None = Inl e)"
    by (simp add: exThrowing_def)
  note returns = test_highest_priority [of exInhibitors "''post''" exMessage None,
      THEN conjunct1, THEN mp, OF nothrow, THEN conjunct2, THEN mp, OF ne]
  note rejects = test_highest_priority [of exThrowing "''post''" exMessage None,
      THEN conjunct2, THEN mp, OF throws]
  from ids returns val rejects show ?thesis by blast
qed

text \<open>
  Claim C7, as stated, fails when an inhibitor of the stage throws, as the \<open>exec\<close> of the
  base class does. Next to an inhibitor that blocks, the test does not return the
  blocker's reason, and alone, where none blocks, it does not return \<open>null\<close>: in both
  the test is rejected with the error.
\<close>

theorem test_rejected_by_throwing_inhibitor:
  "map inh_id (filter (\<lambda>i. inh_type i = ''post'' \<and> inh_exec i exMessage None = Inr True) exThrowing)
     = [''blocks'']
   \<and> test exThrowing ''post'' exMessage None = Inl (CitrusError ''NOT_IMPLEMENTED'')
   \<and> filter (\<lambda>i. inh_type i = ''post'' \<and> inh_exec i exMessage None = Inr True) (tl exThrowing) = []
   \<and> map inh_id (tl exThrowing) = [''boom'']
   \<and> test (tl exThrowing) ''post'' exMessage None = Inl (CitrusError ''NOT_IMPLEMENTED'')"
  by (simp add: test_def exThrowing_def)

section \<open>Context menu commands: a blocked command still runs\<close>

text \<open>
  Claim C10. When a context-menu interaction matches a loaded command that is marked
  \<open>ownerOnly\<close> (or \<open>superUserOnly\<close>) and the invoking user is not an owner (or super
  user), \<open>ContextMenuCommandHandler.handle\<close> emits the blocked event with that reason and
  nevertheless calls the command's \<open>exec\<close>; it returns \<open>true\<close> whenever \<open>exec\<close> does not
  throw.
\<close>

theorem handle_blocked_still_executes:
  assumes found: "find (\<lambda>m. cm_name m = commandName i) (cmh_modules h) = Some c"
  shows "(cm_ownerOnly c \<and> \<not> isOwner (cmh_client h) (Some (interactionUser i))
            \<longrightarrow> CM_Emit (CM_BLOCKED i (cm_id c) OWNER) \<in> set (snd (cm_handle h i)))
       \<and> (cm_superUserOnly c \<and> \<not> isSuperUser (cmh_client h) (Some (interactionUser i))
            \<longrightarrow> CM_Emit (CM_BLOCKED i (cm_id c) SUPER_USER) \<in> set (snd (cm_handle h i)))
       \<and> CM_Exec (cm_id c) i \<in> set (snd (cm_handle h i))
       \<and> (\<forall>ret. cm_exec c i = Inr ret \<longrightarrow> fst (cm_handle h i) = Inr True)"
  using found
  by (auto simp: cm_handle_def Let_def split: sum.splits)

theorem handle_blocked_still_executes_witness:
  "cm_ownerOnly exOwnerOnly
   \<and> \<not> isOwner (cmh_client exContextHandler) (Some (interactionUser exInteraction))
   \<and> cm_handle exContextHandler exInteraction =
       (Inr True, [CM_Emit (CM_BLOCKED exInteraction ''ban'' OWNER),
                   CM_Emit (CM_STARTED exInteraction ''ban''),
                   CM_Exec ''ban'' exInteraction,
                   CM_Emit (CM_FINISHED exInteraction ''ban'' ''done'')])
   \<and> CM_Emit (CM_BLOCKED exInteraction (cm_id exOwnerOnly) OWNER)
        \<in> set (snd (cm_handle exContextHandler exInteraction))
   \<and> CM_Exec (cm_id exOwnerOnly) exInteraction
        \<in> set (snd (cm_handle exContextHandler exInteraction))
   \<and> fst (cm_handle exContextHandler exInteraction) = Inr True"
proof -
  have f: "find (\<lambda>m. cm_name m = commandName exInteraction) (cmh_modules exContextHandler)
             = Some exOwnerOnly"
    by (simp add: exContextHandler_def exOwnerOnly_def exInteraction_def)
  have b: "cm_ownerOnly exOwnerOnly
           \<and> \<not> isOwner (cmh_client exContextHandler) (Some (interactionUser exInteraction))"
    by (simp add: exContextHandler_def exOwnerOnly_def exInteraction_def isOwner_def)
  have e: "cm_exec exOwnerOnly exInteraction = Inr ''done''"
    by (simp add: exOwnerOnly_def)
  have full: "cm_handle exContextHandler exInteraction =
       (Inr True, [CM_Emit (CM_BLOCKED exInteraction ''ban'' OWNER),
                   CM_Emit (CM_STARTED exInteraction ''ban''),
                   CM_Exec ''ban'' exInteraction,
                   CM_Emit (CM_FINISHED exInteraction ''ban'' ''done'')])"
    by (simp add: cm_handle_def exContextHandler_def exOwnerOnly_def exInteraction_def
        isOwner_def isSuperUser_def)
  from handle_blocked_still_executes [OF f] b e full show ?thesis by blast
qed

section \<open>Built-in casters: the \<open>bigint\<close> caster throws\<close>

text \<open>
  Claim C8. Every built-in caster returns \<open>null\<close> on an empty or unparseable phrase and
  never throws. The \<open>bigint\<close> caster does not: the phrase \<open>1.5\<close> is a number for
  \<open>isNaN\<close>, so the guard lets it through, and \<open>BigInt\<close> rejects it with a SyntaxError.
\<close>

theorem BIGINT_throws_on_decimal: "BIGINT ''1.5'' = Inl SyntaxError"
  by code_simp


section \<open>Cooldowns: what a step does to an entry\<close>

lemma entryOf_setEntry [simp]: "entryOf (setEntry uid cid (Some e) s) uid cid = Some e"
  by (simp add: entryOf_def setEntry_def)

lemma entryOf_emit [simp]: "entryOf (emit ev s) uid cid = entryOf s uid cid"
  by (simp add: entryOf_def emit_def)

lemma entryOf_setTimeout [simp]: "entryOf (setTimeout t u c s) uid cid = entryOf s uid cid"
  by (simp add: entryOf_def setTimeout_def)

lemma entryOf_ensureUser [simp]: "entryOf (ensureUser u s) uid cid = entryOf s uid cid"
  by (auto simp: entryOf_def ensureUser_def split: option.splits)

lemma entryOf_setEntry_other:
  "(uid', cid') \<noteq> (uid, cid) \<Longrightarrow> entryOf (setEntry uid' cid' v s) uid cid = entryOf s uid cid"
  by (auto simp: entryOf_def setEntry_def split: option.splits)

lemma entryOf_setEntry_same: "entryOf (setEntry uid cid v s) uid cid = v"
  by (auto simp: entryOf_def setEntry_def split: option.splits)

lemma timers_setEntry [simp]: "timers (setEntry uid cid v s) = timers s"
  by (simp add: setEntry_def)
lemma nextTimer_setEntry [simp]: "nextTimer (setEntry uid cid v s) = nextTimer s"
  by (simp add: setEntry_def)
lemma now_setEntry [simp]: "now (setEntry uid cid v s) = now s"
  by (simp add: setEntry_def)
lemma timers_emit [simp]: "timers (emit ev s) = timers s"
  by (simp add: emit_def)
lemma nextTimer_emit [simp]: "nextTimer (emit ev s) = nextTimer s"
  by (simp add: emit_def)
lemma now_emit [simp]: "now (emit ev s) = now s"
  by (simp add: emit_def)
lemma now_setTimeout [simp]: "now (setTimeout t u c s) = now s"
  by (simp add: setTimeout_def)
lemma timers_ensureUser [simp]: "timers (ensureUser u s) = timers s"
  by (simp add: ensureUser_def split: option.splits)
lemma nextTimer_ensureUser [simp]: "nextTimer (ensureUser u s) = nextTimer s"
  by (simp add: ensureUser_def split: option.splits)
lemma now_ensureUser [simp]: "now (ensureUser u s) = now s"
  by (simp add: ensureUser_def split: option.splits)
lemma trace_ensureUser [simp]: "trace (ensureUser u s) = trace s"
  by (simp add: ensureUser_def split: option.splits)


lemma own_not_inherited: "\<not> inheritedProperty cid \<Longrightarrow> \<not> findsInherited s uid cid"
  by (simp add: findsInherited_def)


lemma runCooldowns_fresh:
  assumes "map_option user_id (m_author m) = uid"
    and "\<not> isIgnored (orHandler (c_ignoreCooldown c) (h_ignoreCooldown h)) uid m (c_id c)"
    and "cooldownTime h c \<noteq> 0"
    and "entryOf s uid (c_id c) = None"
    and "\<not> inheritedProperty (c_id c)"
  shows "runCooldowns h m c s =
           (let e = \<lparr> cd_timer = nextTimer s, cd_end = m_createdTimestamp m + cooldownTime h c,
                      cd_uses = 0 \<rparr>;
                s1 = setEntry uid (c_id c) (Some e) (setTimeout (cooldownTime h c) uid (c_id c) s)
            in if c_ratelimit c \<le> 0
               then (True, emit (COOLDOWN m (c_id c) (cd_end e - m_createdTimestamp m)) s1)
               else (False, setEntry uid (c_id c) (Some (e\<lparr>cd_uses := 1\<rparr>)) s1))"
  using assms own_not_inherited [OF assms(5)] by (simp add: runCooldowns_def Let_def)

text \<open>What a call of \<open>runCooldowns\<close> does to the state has one of five shapes.\<close>

lemma runCooldowns_cases:
  obtains (skip) "snd (runCooldowns h m c s) = s"
  | (inherited) "snd (runCooldowns h m c s) = ensureUser (map_option user_id (m_author m)) s"
  | (blocked) e ev where "entryOf s (map_option user_id (m_author m)) (c_id c) = Some e"
      "snd (runCooldowns h m c s) = emit ev s"
  | (counted) e where "entryOf s (map_option user_id (m_author m)) (c_id c) = Some e"
      "snd (runCooldowns h m c s)
         = setEntry (map_option user_id (m_author m)) (c_id c) (Some (e\<lparr>cd_uses := cd_uses e + 1\<rparr>)) s"
  | (created) e ev b where "entryOf s (map_option user_id (m_author m)) (c_id c) = None"
      "cooldownTime h c \<noteq> 0"
      "countedFor h c (map_option user_id (m_author m)) m"
      "cd_timer e = nextTimer s" "cd_end e = m_createdTimestamp m + cooldownTime h c"
      "snd (runCooldowns h m c s)
         = (if b then emit ev else id)
             (setEntry (map_option user_id (m_author m)) (c_id c) (Some e)
               (setTimeout (cooldownTime h c) (map_option user_id (m_author m)) (c_id c) s))"
proof -
  let ?uid = "map_option user_id (m_author m)"
  show ?thesis
  proof (cases "isIgnored (orHandler (c_ignoreCooldown c) (h_ignoreCooldown h)) ?uid m (c_id c)
                \<or> cooldownTime h c = 0")
    case True
    then have "snd (runCooldowns h m c s) = s"
      by (auto simp: runCooldowns_def Let_def)
    then show ?thesis by (rule skip)
  next
    case False
    then have ni: "\<not> isIgnored (orHandler (c_ignoreCooldown c) (h_ignoreCooldown h)) ?uid m (c_id c)"
      and tm: "cooldownTime h c \<noteq> 0" by auto
    show ?thesis
    proof (cases "findsInherited s ?uid (c_id c)")
      case True
      then have "snd (runCooldowns h m c s) = ensureUser ?uid s"
        using ni tm by (simp add: runCooldowns_def Let_def)
      then show ?thesis by (rule inherited)
    next
      case own: False
      show ?thesis
      proof (cases "entryOf s ?uid (c_id c)")
        case None
        define e0 where "e0 = \<lparr> cd_timer = nextTimer s,
           cd_end = m_createdTimestamp m + cooldownTime h c, cd_uses = 0 \<rparr>"
        define s0 where "s0 = setTimeout (cooldownTime h c) ?uid (c_id c) s"
        show ?thesis
        proof (cases "c_ratelimit c \<le> 0")
          case True
          have "snd (runCooldowns h m c s)
             = emit (COOLDOWN m (c_id c) (cd_end e0 - m_createdTimestamp m)) (setEntry ?uid (c_id c) (Some e0) s0)"
            using ni tm own None True by (simp add: runCooldowns_def Let_def e0_def s0_def)
          then show ?thesis
            using created [of e0 True] None tm ni by (simp add: e0_def s0_def countedFor_def)
        next
          case False
          have "snd (runCooldowns h m c s)
             = setEntry ?uid (c_id c) (Some (e0\<lparr>cd_uses := 1\<rparr>)) (setEntry ?uid (c_id c) (Some e0) s0)"
            using ni tm own None False by (simp add: runCooldowns_def Let_def e0_def s0_def)
          also have "\<dots> = setEntry ?uid (c_id c) (Some (e0\<lparr>cd_uses := 1\<rparr>)) s0"
            by (simp add: setEntry_def)
          finally show ?thesis
            using created [of "e0\<lparr>cd_uses := 1\<rparr>" False] None tm ni
            by (simp add: e0_def s0_def countedFor_def)
        qed
      next
        case (Some e)
        show ?thesis
        proof (cases "c_ratelimit c \<le> cd_uses e")
          case True
          have "snd (runCooldowns h m c s) = emit (COOLDOWN m (c_id c) (cd_end e - m_createdTimestamp m)) s"
            using ni tm own Some True by (simp add: runCooldowns_def Let_def)
          with Some show ?thesis by (rule blocked)
        next
          case False
          have "snd (runCooldowns h m c s)
             = setEntry ?uid (c_id c) (Some (e\<lparr>cd_uses := cd_uses e + 1\<rparr>)) s"
            using ni tm own Some False by (simp add: runCooldowns_def Let_def)
          with Some show ?thesis by (rule counted)
        qed
      qed
    qed
  qed
qed


lemma timers_setTimeout:
  "timers (setTimeout t u c s) = (timers s)(nextTimer s \<mapsto>
      \<lparr> t_set = now s, t_delay = timeoutDelay t, t_user = u, t_command = c \<rparr>)"
  by (simp add: setTimeout_def)

lemma nextTimer_setTimeout [simp]: "nextTimer (setTimeout t u c s) = Suc (nextTimer s)"
  by (simp add: setTimeout_def)

lemma timersConsistent_initial: "timersConsistent (initialState t)"
  by (simp add: timersConsistent_def initialState_def)

lemma timersConsistent_emit [simp]: "timersConsistent (emit ev s) = timersConsistent s"
  by (simp add: timersConsistent_def)

lemma timersConsistent_ensureUser [simp]: "timersConsistent (ensureUser u s) = timersConsistent s"
  by (simp add: timersConsistent_def)

lemma timersConsistent_count:
  assumes "timersConsistent s" and "entryOf s uid cid = Some e" and "cd_timer e' = cd_timer e"
  shows "timersConsistent (setEntry uid cid (Some e') s)"
  unfolding timersConsistent_def
proof (intro allI impI)
  fix k t assume kt: "timers (setEntry uid cid (Some e') s) k = Some t"
  then have old: "timers s k = Some t" by simp
  with assms(1) obtain e0 where lt: "k < nextTimer s"
    and e0: "entryOf s (t_user t) (t_command t) = Some e0" "cd_timer e0 = k"
    by (auto simp: timersConsistent_def)
  show "k < nextTimer (setEntry uid cid (Some e') s)
        \<and> (\<exists>e. entryOf (setEntry uid cid (Some e') s) (t_user t) (t_command t) = Some e
                \<and> cd_timer e = k)"
  proof (cases "(uid, cid) = (t_user t, t_command t)")
    case True
    then have "e0 = e" using e0 assms(2) by simp
    then show ?thesis using True lt e0 assms(3) by (auto simp: entryOf_setEntry_same)
  next
    case False
    then show ?thesis using lt e0 by (simp add: entryOf_setEntry_other)
  qed
qed

lemma timersConsistent_create:
  assumes "timersConsistent s" and "entryOf s uid cid = None" and "cd_timer e = nextTimer s"
  shows "timersConsistent (setEntry uid cid (Some e) (setTimeout t uid cid s))"
  unfolding timersConsistent_def
proof (intro allI impI)
  fix k tm assume kt: "timers (setEntry uid cid (Some e) (setTimeout t uid cid s)) k = Some tm"
  show "k < nextTimer (setEntry uid cid (Some e) (setTimeout t uid cid s))
        \<and> (\<exists>e'. entryOf (setEntry uid cid (Some e) (setTimeout t uid cid s)) (t_user tm) (t_command tm)
                   = Some e' \<and> cd_timer e' = k)"
  proof (cases "k = nextTimer s")
    case True
    then have "tm = \<lparr> t_set = now s, t_delay = timeoutDelay t, t_user = uid, t_command = cid \<rparr>"
      using kt by (simp add: timers_setTimeout)
    then show ?thesis using True assms(3) by (simp add: entryOf_setEntry_same)
  next
    case False
    then have old: "timers s k = Some tm" using kt by (simp add: timers_setTimeout)
    with assms(1) obtain e0 where lt: "k < nextTimer s"
      and e0: "entryOf s (t_user tm) (t_command tm) = Some e0" "cd_timer e0 = k"
      by (auto simp: timersConsistent_def)
    have "(uid, cid) \<noteq> (t_user tm, t_command tm)" using e0 assms(2) by auto
    then show ?thesis using lt e0 by (simp add: entryOf_setEntry_other)
  qed
qed

lemma timersConsistent_runCooldowns:
  assumes "timersConsistent s"
  shows "timersConsistent (snd (runCooldowns h m c s))"
proof (cases h m c s rule: runCooldowns_cases)
  case skip
  then show ?thesis using assms by simp
next
  case inherited
  then show ?thesis using assms by simp
next
  case (blocked e ev)
  then show ?thesis using assms by simp
next
  case (counted e)
  then show ?thesis using assms timersConsistent_count [OF assms counted(1)] by simp
next
  case (created e ev b)
  then show ?thesis using timersConsistent_create [OF assms created(1) created(4)] by simp
qed

lemma now_runCooldowns [simp]: "now (snd (runCooldowns h m c s)) = now s"
  by (cases h m c s rule: runCooldowns_cases) simp_all

lemma nextTimer_runCooldowns: "nextTimer s \<le> nextTimer (snd (runCooldowns h m c s))"
  by (cases h m c s rule: runCooldowns_cases) simp_all

lemma runCooldowns_keeps_entry:
  assumes "entryOf s uid cid = Some e"
  shows "\<exists>e'. entryOf (snd (runCooldowns h m c s)) uid cid = Some e'
              \<and> cd_timer e' = cd_timer e \<and> cd_end e' = cd_end e"
proof (cases h m c s rule: runCooldowns_cases)
  case skip
  then show ?thesis using assms by simp
next
  case inherited
  then show ?thesis using assms by simp
next
  case (blocked e0 ev)
  then show ?thesis using assms by simp
next
  case (counted e0)
  show ?thesis
  proof (cases "(map_option user_id (m_author m), c_id c) = (uid, cid)")
    case True
    then have "e0 = e" using counted(1) assms by simp
    then show ?thesis using True counted(2) by (auto simp: entryOf_setEntry_same)
  next
    case False
    then show ?thesis using counted(2) assms by (simp add: entryOf_setEntry_other)
  qed
next
  case (created e0 ev b)
  have "(map_option user_id (m_author m), c_id c) \<noteq> (uid, cid)"
    using created(1) assms by auto
  then show ?thesis using created(6) assms by (simp add: entryOf_setEntry_other)
qed

lemma runCooldowns_timers:
  assumes "k < nextTimer s"
  shows "timers (snd (runCooldowns h m c s)) k = timers s k"
  using assms by (cases h m c s rule: runCooldowns_cases) (simp_all add: timers_setTimeout)

lemma runCooldowns_keeps_timer:
  assumes "timersConsistent s" and "timers s k = Some t"
  shows "timers (snd (runCooldowns h m c s)) k = Some t"
proof -
  have "k < nextTimer s" using assms by (auto simp: timersConsistent_def)
  then show ?thesis using assms(2) by (simp add: runCooldowns_timers)
qed

lemma runCooldowns_creates:
  assumes "entryOf s uid (c_id c) = None" and "countedFor h c uid m" and "cooldownTime h c \<noteq> 0"
    and "\<not> inheritedProperty (c_id c)"
  shows "\<exists>e. entryOf (snd (runCooldowns h m c s)) uid (c_id c) = Some e
           \<and> cd_timer e = nextTimer s
           \<and> cd_end e = m_createdTimestamp m + cooldownTime h c
           \<and> cd_uses e = (if c_ratelimit c \<le> 0 then 0 else 1)
           \<and> fst (runCooldowns h m c s) = (c_ratelimit c \<le> 0)
           \<and> timers (snd (runCooldowns h m c s)) (nextTimer s)
               = Some \<lparr> t_set = now s, t_delay = timeoutDelay (cooldownTime h c),
                        t_user = uid, t_command = c_id c \<rparr>"
proof -
  have u: "map_option user_id (m_author m) = uid"
    and ni: "\<not> isIgnored (orHandler (c_ignoreCooldown c) (h_ignoreCooldown h)) uid m (c_id c)"
    using assms(2) by (simp_all add: countedFor_def)
  show ?thesis
    using runCooldowns_fresh [OF u ni assms(3) assms(1) assms(4)]
    by (auto simp: Let_def entryOf_setEntry_same timers_setTimeout)
qed

lemma fire_effect:
  assumes "step h s (Fire k) = Some s'" and "timersConsistent s"
  shows "\<exists>t. timers s k = Some t \<and> t_set t + t_delay t \<le> now s \<and> now s' = now s
           \<and> timers s' = (timers s)(k := None) \<and> nextTimer s' = nextTimer s
           \<and> (\<forall>uid cid. entryOf s' uid cid
                 = (if (uid, cid) = (t_user t, t_command t) then None else entryOf s uid cid))"
proof -
  from assms(1) obtain t where t: "timers s k = Some t"
    by (auto split: option.splits)
  from assms(1) t have due: "t_set t + t_delay t \<le> now s"
    by (auto split: if_splits)
  from assms(2) t obtain e where e: "entryOf s (t_user t) (t_command t) = Some e" "cd_timer e = k"
    by (auto simp: timersConsistent_def)
  from e(1) obtain perUser where pu: "cooldowns s (t_user t) = Some perUser"
    "perUser (t_command t) = Some (Some e)"
    by (auto simp: entryOf_def split: option.splits)
  have s': "s' = (clearTimeout k s)\<lparr>cooldowns :=
              (cooldowns s)(t_user t \<mapsto> perUser(t_command t \<mapsto> None))\<rparr>"
    using assms(1) t due pu e(2)
    by (auto simp: cooldownExpired_def clearTimeout_def Let_def split: if_splits)
  have "\<forall>uid cid. entryOf s' uid cid
                 = (if (uid, cid) = (t_user t, t_command t) then None else entryOf s uid cid)"
    using pu by (auto simp: s' entryOf_def clearTimeout_def split: option.splits)
  moreover have "now s' = now s" "timers s' = (timers s)(k := None)" "nextTimer s' = nextTimer s"
    by (simp_all add: s' clearTimeout_def)
  ultimately show ?thesis using t due by blast
qed

lemma fire_enabled:
  assumes "timersConsistent s" and "timers s k = Some t" and "t_set t + t_delay t \<le> now s"
  shows "\<exists>s'. step h s (Fire k) = Some s'"
proof -
  from assms(1,2) obtain e where e: "entryOf s (t_user t) (t_command t) = Some e"
    by (auto simp: timersConsistent_def)
  then obtain perUser where pu: "cooldowns s (t_user t) = Some perUser"
    by (auto simp: entryOf_def split: option.splits)
  then have "\<exists>s'. cooldownExpired (t_user t) (t_command t) (clearTimeout k s) = Inr s'"
    by (simp add: cooldownExpired_def clearTimeout_def Let_def)
  then show ?thesis using assms(2,3) by auto
qed

lemma timersConsistent_step:
  assumes "timersConsistent s" and "step h s x = Some s'"
  shows "timersConsistent s'"
proof (cases x)
  case (Use m c)
  then show ?thesis using assms timersConsistent_runCooldowns by auto
next
  case (Elapse d)
  then have "s' = s\<lparr>now := now s + int d\<rparr>" using assms(2) by simp
  then show ?thesis using assms(1) by (simp add: timersConsistent_def entryOf_def)
next
  case (Fire k)
  with assms fire_effect obtain t where t: "timers s k = Some t"
    and tm: "timers s' = (timers s)(k := None)" and nt: "nextTimer s' = nextTimer s"
    and en: "\<forall>uid cid. entryOf s' uid cid
                 = (if (uid, cid) = (t_user t, t_command t) then None else entryOf s uid cid)"
    by blast
  from assms(1) t obtain e where e: "entryOf s (t_user t) (t_command t) = Some e" "cd_timer e = k"
    by (auto simp: timersConsistent_def)
  show ?thesis
    unfolding timersConsistent_def
  proof (intro allI impI)
    fix k' t' assume k't': "timers s' k' = Some t'"
    then have ne: "k' \<noteq> k" and old: "timers s k' = Some t'"
      using tm by (auto split: if_splits)
    from assms(1) old obtain e' where lt: "k' < nextTimer s"
      and e': "entryOf s (t_user t') (t_command t') = Some e'" "cd_timer e' = k'"
      by (auto simp: timersConsistent_def)
    have "(t_user t', t_command t') \<noteq> (t_user t, t_command t)"
      using e e' ne by auto
    then show "k' < nextTimer s' \<and> (\<exists>e. entryOf s' (t_user t') (t_command t') = Some e \<and> cd_timer e = k')"
      using lt nt en e' by auto
  qed
qed

lemma now_step: "step h s x = Some s' \<Longrightarrow> now s \<le> now s'"
  by (cases x) (auto simp: cooldownExpired_def clearTimeout_def Let_def split: option.splits if_splits sum.splits)

lemma now_run: "run h s xs = Some s' \<Longrightarrow> now s \<le> now s'"
proof (induction xs arbitrary: s)
  case Nil
  then show ?case by simp
next
  case (Cons x xs)
  then obtain s1 where s1: "step h s x = Some s1" "run h s1 xs = Some s'"
    by (auto split: option.splits)
  from now_step [OF s1(1)] Cons.IH [OF s1(2)] show ?case by simp
qed

lemma timersConsistent_run:
  "timersConsistent s \<Longrightarrow> run h s xs = Some s' \<Longrightarrow> timersConsistent s'"
proof (induction xs arbitrary: s)
  case Nil
  then show ?case by simp
next
  case (Cons x xs)
  then obtain s1 where s1: "step h s x = Some s1" "run h s1 xs = Some s'"
    by (auto split: option.splits)
  from Cons.IH [OF timersConsistent_step [OF Cons.prems(1) s1(1)] s1(2)] show ?case .
qed



text \<open>A handle that was given out names the same timer for as long as it is pending.\<close>

lemma step_timer_same:
  assumes "timersConsistent s" and "k < nextTimer s" and "step h s x = Some s'"
  shows "k < nextTimer s' \<and> (timers s' k = None \<or> timers s' k = timers s k)"
proof (cases x)
  case (Use m c)
  then have s': "s' = snd (runCooldowns h m c s)" using assms(3) by simp
  show ?thesis
    unfolding s' using runCooldowns_timers [OF assms(2)] nextTimer_runCooldowns [of s h m c] assms(2)
    by auto
next
  case (Elapse d)
  then have "s' = s\<lparr>now := now s + int d\<rparr>" using assms(3) by simp
  then show ?thesis using assms(2) by simp
next
  case (Fire j)
  with assms fire_effect obtain t where "timers s' = (timers s)(j := None)" "nextTimer s' = nextTimer s"
    by blast
  then show ?thesis using assms(2) by auto
qed

lemma run_timer_same:
  assumes "timersConsistent s" and "k < nextTimer s" and "run h s xs = Some s'"
    and "timers s' k = Some t'"
  shows "timers s k = Some t'"
  using assms
proof (induction xs arbitrary: s)
  case Nil
  then show ?case by simp
next
  case (Cons x xs)
  then obtain s1 where s1: "step h s x = Some s1" "run h s1 xs = Some s'"
    by (auto split: option.splits)
  from step_timer_same [OF Cons.prems(1) Cons.prems(2) s1(1)]
  have k1: "k < nextTimer s1" and same: "timers s1 k = None \<or> timers s1 k = timers s k"
    by auto
  from Cons.IH [OF timersConsistent_step [OF Cons.prems(1) s1(1)] k1 s1(2) Cons.prems(4)]
  have "timers s1 k = Some t'" .
  with same show ?case by auto
qed


lemma step_keeps_entry:
  assumes inv: "timersConsistent s"
    and live: "entryOf s uid cid = Some e"
    and tmr: "timers s (cd_timer e) = Some t"
    and st: "step h s x = Some s'"
    and early: "now s' < t_set t + t_delay t"
  shows "\<exists>e'. entryOf s' uid cid = Some e' \<and> cd_timer e' = cd_timer e \<and> cd_end e' = cd_end e
              \<and> timers s' (cd_timer e') = Some t"
proof (cases x)
  case (Use m c)
  then have s': "s' = snd (runCooldowns h m c s)" using st by simp
  from runCooldowns_keeps_entry [OF live, of h m c] runCooldowns_keeps_timer [OF inv tmr, of h m c]
  show ?thesis by (auto simp: s')
next
  case (Elapse d)
  then have "s' = s\<lparr>now := now s + int d\<rparr>" using st by simp
  then show ?thesis using live tmr by (simp add: entryOf_def)
next
  case (Fire k)
  with st inv fire_effect obtain t' where t': "timers s k = Some t'"
    and due: "t_set t' + t_delay t' \<le> now s" and nw: "now s' = now s"
    and tm: "timers s' = (timers s)(k := None)"
    and en: "\<forall>uid cid. entryOf s' uid cid
                 = (if (uid, cid) = (t_user t', t_command t') then None else entryOf s uid cid)"
    by blast
  have ne: "k \<noteq> cd_timer e"
  proof
    assume "k = cd_timer e"
    then have "t' = t" using t' tmr by simp
    then show False using due early nw by simp
  qed
  from inv t' obtain e0 where e0: "entryOf s (t_user t') (t_command t') = Some e0" "cd_timer e0 = k"
    by (auto simp: timersConsistent_def)
  have "(uid, cid) \<noteq> (t_user t', t_command t')"
    using e0 live ne by auto
  then show ?thesis using en live tm tmr ne by auto
qed

lemma run_keeps_entry:
  assumes "timersConsistent s"
    and "entryOf s uid cid = Some e"
    and "timers s (cd_timer e) = Some t"
    and "run h s xs = Some s'"
    and "now s' < t_set t + t_delay t"
  shows "\<exists>e'. entryOf s' uid cid = Some e' \<and> cd_timer e' = cd_timer e \<and> cd_end e' = cd_end e
              \<and> timers s' (cd_timer e) = Some t"
  using assms
proof (induction xs arbitrary: s e)
  case Nil
  then show ?case by simp
next
  case (Cons x xs)
  then obtain s1 where s1: "step h s x = Some s1" "run h s1 xs = Some s'"
    by (auto split: option.splits)
  have "now s1 \<le> now s'" using now_run [OF s1(2)] .
  then have early: "now s1 < t_set t + t_delay t" using Cons.prems(5) by simp
  from step_keeps_entry [OF Cons.prems(1) Cons.prems(2) Cons.prems(3) s1(1) early]
  obtain e1 where e1: "entryOf s1 uid cid = Some e1" "cd_timer e1 = cd_timer e"
    "cd_end e1 = cd_end e" "timers s1 (cd_timer e1) = Some t"
    by blast
  from Cons.IH [OF timersConsistent_step [OF Cons.prems(1) s1(1)] e1(1) e1(4) s1(2) Cons.prems(5)]
    e1(2) e1(3)
  show ?case by auto
qed

text \<open>The equations that evaluate the examples.\<close>

lemmas ex_defs = exHandler_def exPing_def exPingTwice_def exMonthly_def exConstructor_def
      newCommand_def exMessageAt_def exMessage_def exUser_def exChannel_def initialState_def
lemmas cd_defs = runCooldowns_def cooldownTime_def orHandler_def isIgnored_def
      inheritedProperty_def findsInherited_def ensureUser_def
      entryOf_def setEntry_def setTimeout_def timeoutDelay_def emit_def clearTimeout_def
      cooldownExpired_def Let_def

section \<open>Cooldowns: the rate limit within one window\<close>




section \<open>Cooldowns: the lifetime of an entry\<close>

text \<open>
  Claim C2, as amended. Take a cooldown \<open>T\<close> from 1 to 2147483647 ms and a command
  whose id is not the name of a property of \<open>Object.prototype\<close>. The call of
  \<open>runCooldowns\<close> that creates the entry for a user and the command sets one timer, for
  \<open>T\<close> ms. In every state reached before \<open>T\<close> ms have passed on the clock since that
  call, whatever calls of \<open>runCooldowns\<close>, timers and time steps came in between, the
  entry is there with the same \<open>end\<close> and the same timer, and that timer is pending and
  cannot fire. In every state reached from \<open>T\<close> ms on in which that timer is still
  pending, it can fire, and firing it clears the entry, whether or not the user went on
  using the command.
\<close>

theorem cooldown_entry_lifetime:
  assumes reach: "run h (initialState t0) before = Some s"
    and fresh: "entryOf s uid (c_id c) = None"
    and own: "\<not> inheritedProperty (c_id c)"
    and counted: "countedFor h c uid m"
    and time: "1 \<le> cooldownTime h c" "cooldownTime h c \<le> 2147483647"
    and after: "run h s (Use m c # later) = Some s'"
  shows "(\<exists>e. entryOf (snd (runCooldowns h m c s)) uid (c_id c) = Some e
              \<and> cd_timer e = nextTimer s
              \<and> cd_end e = m_createdTimestamp m + cooldownTime h c)
       \<and> timers s (nextTimer s) = None
       \<and> timers (snd (runCooldowns h m c s)) (nextTimer s)
           = Some \<lparr> t_set = now s, t_delay = cooldownTime h c, t_user = uid, t_command = c_id c \<rparr>
       \<and> (now s' < now s + cooldownTime h c
            \<longrightarrow> (\<exists>e. entryOf s' uid (c_id c) = Some e
                      \<and> cd_timer e = nextTimer s
                      \<and> cd_end e = m_createdTimestamp m + cooldownTime h c)
                \<and> timers s' (nextTimer s)
                    = Some \<lparr> t_set = now s, t_delay = cooldownTime h c, t_user = uid,
                             t_command = c_id c \<rparr>
                \<and> step h s' (Fire (nextTimer s)) = None)
       \<and> (now s + cooldownTime h c \<le> now s' \<and> timers s' (nextTimer s) \<noteq> None
            \<longrightarrow> (\<exists>s''. step h s' (Fire (nextTimer s)) = Some s''
                        \<and> entryOf s'' uid (c_id c) = None))"
proof -
  let ?t = "\<lparr> t_set = now s, t_delay = cooldownTime h c, t_user = uid, t_command = c_id c \<rparr>"
  have inv: "timersConsistent s"
    using timersConsistent_run [OF timersConsistent_initial reach] .
  define s1 where "s1 = snd (runCooldowns h m c s)"
  have rest: "run h s1 later = Some s'" using after by (simp add: s1_def)
  have inv1: "timersConsistent s1"
    unfolding s1_def using inv by (rule timersConsistent_runCooldowns)
  have inv': "timersConsistent s'"
    using timersConsistent_run [OF inv1 rest] .
  have nz: "cooldownTime h c \<noteq> 0" using time by simp
  have delay: "timeoutDelay (cooldownTime h c) = cooldownTime h c"
    using time by (simp add: timeoutDelay_def)
  from runCooldowns_creates [OF fresh counted nz own]
  obtain e1 where e1: "entryOf s1 uid (c_id c) = Some e1" "cd_timer e1 = nextTimer s"
    "cd_end e1 = m_createdTimestamp m + cooldownTime h c"
    and tm: "timers s1 (nextTimer s) = Some ?t"
    unfolding s1_def delay by blast
  have created: "\<exists>e. entryOf (snd (runCooldowns h m c s)) uid (c_id c) = Some e
              \<and> cd_timer e = nextTimer s
              \<and> cd_end e = m_createdTimestamp m + cooldownTime h c"
    using e1 by (auto simp: s1_def)
  have unused: "timers s (nextTimer s) = None"
  proof (cases "timers s (nextTimer s)")
    case None
    then show ?thesis .
  next
    case (Some t)
    with inv have "nextTimer s < nextTimer s" by (auto simp: timersConsistent_def)
    then show ?thesis by simp
  qed
  have tm1: "timers s1 (cd_timer e1) = Some ?t" using tm e1(2) by simp
  have before: "(\<exists>e. entryOf s' uid (c_id c) = Some e
                      \<and> cd_timer e = nextTimer s
                      \<and> cd_end e = m_createdTimestamp m + cooldownTime h c)
                \<and> timers s' (nextTimer s) = Some ?t
                \<and> step h s' (Fire (nextTimer s)) = None"
    if early: "now s' < now s + cooldownTime h c"
  proof -
    have early1: "now s' < t_set ?t + t_delay ?t" using early by simp
    from run_keeps_entry [OF inv1 e1(1) tm1 rest early1]
    obtain e where e: "entryOf s' uid (c_id c) = Some e" "cd_timer e = cd_timer e1"
      "cd_end e = cd_end e1" "timers s' (cd_timer e1) = Some ?t"
      by blast
    have pending: "timers s' (nextTimer s) = Some ?t" using e(4) e1(2) by simp
    then have "step h s' (Fire (nextTimer s)) = None" using early by simp
    with e e1 pending show ?thesis by auto
  qed
  have fires: "\<exists>s''. step h s' (Fire (nextTimer s)) = Some s'' \<and> entryOf s'' uid (c_id c) = None"
    if due: "now s + cooldownTime h c \<le> now s'" and pending: "timers s' (nextTimer s) \<noteq> None"
  proof -
    from pending obtain t' where t': "timers s' (nextTimer s) = Some t'" by auto
    have lt: "nextTimer s < nextTimer s1"
      using inv1 tm by (auto simp: timersConsistent_def)
    have "timers s1 (nextTimer s) = Some t'"
      using run_timer_same [OF inv1 lt rest t'] .
    then have same: "t' = ?t" using tm by simp
    have due': "t_set t' + t_delay t' \<le> now s'" using due same by simp
    from fire_enabled [OF inv' t' due'] obtain s'' where
      s'': "step h s' (Fire (nextTimer s)) = Some s''" by blast
    from fire_effect [OF s'' inv'] t' have "entryOf s'' (t_user t') (t_command t') = None"
      by auto
    then have "entryOf s'' uid (c_id c) = None" using same by simp
    with s'' show ?thesis by blast
  qed
  from created unused tm before fires show ?thesis
    unfolding s1_def by blast
qed

text \<open>A rate limit of 2 and a cooldown of 1000 ms. After uses at 0 ms and at 500 ms the
  entry and its timer are as created at 999 ms, and the timer cannot fire; after uses at
  0 ms and at 999 ms the timer fires at 1000 ms and clears the entry.\<close>

theorem cooldown_entry_lifetime_witness:
  "(\<exists>s'. run exHandler (initialState 0)
            [Use (exMessageAt 0) exPingTwice, Elapse 500, Use (exMessageAt 500) exPingTwice,
             Elapse 499] = Some s'
         \<and> now s' = 999
         \<and> (\<exists>e. entryOf s' (Some ''2'') ''ping'' = Some e \<and> cd_timer e = 0 \<and> cd_end e = 1000)
         \<and> timers s' 0 = Some \<lparr> t_set = 0, t_delay = 1000, t_user = Some ''2'', t_command = ''ping'' \<rparr>
         \<and> step exHandler s' (Fire 0) = None)
   \<and> (\<exists>s' s''. run exHandler (initialState 0)
            [Use (exMessageAt 0) exPingTwice, Elapse 999, Use (exMessageAt 999) exPingTwice,
             Elapse 1] = Some s'
         \<and> now s' = 1000
         \<and> step exHandler s' (Fire 0) = Some s''
         \<and> entryOf s'' (Some ''2'') ''ping'' = None)"
proof -
  have reach: "run exHandler (initialState 0) [] = Some (initialState 0)" by simp
  have fresh: "entryOf (initialState 0) (Some ''2'') (c_id exPingTwice) = None"
    by (simp add: entryOf_def initialState_def)
  have own: "\<not> inheritedProperty (c_id exPingTwice)"
    by (simp add: inheritedProperty_def ex_defs)
  have counted: "countedFor exHandler exPingTwice (Some ''2'') (exMessageAt 0)"
    by (simp add: countedFor_def ex_defs orHandler_def isIgnored_def)
  have time: "cooldownTime exHandler exPingTwice = 1000"
    by (simp add: cooldownTime_def ex_defs)
  have cid: "c_id exPingTwice = ''ping''"
    by (simp add: ex_defs)
  have start: "nextTimer (initialState 0) = 0" "now (initialState 0) = 0"
    "m_createdTimestamp (exMessageAt 0) = 0"
    by (simp_all add: initialState_def exMessageAt_def)
  obtain sa where runa: "run exHandler (initialState 0)
        (Use (exMessageAt 0) exPingTwice # [Elapse 500, Use (exMessageAt 500) exPingTwice, Elapse 499])
          = Some sa"
    and nwa: "now sa = 999"
    by (simp add: ex_defs cd_defs split: prod.splits)
  note a = cooldown_entry_lifetime [OF reach fresh own counted _ _ runa, unfolded time start cid]
  have first: "(\<exists>e. entryOf sa (Some ''2'') ''ping'' = Some e \<and> cd_timer e = 0 \<and> cd_end e = 1000)
         \<and> timers sa 0 = Some \<lparr> t_set = 0, t_delay = 1000, t_user = Some ''2'', t_command = ''ping'' \<rparr>
         \<and> step exHandler sa (Fire 0) = None"
    using a nwa by (simp del: step.simps)
  obtain sb where runb: "run exHandler (initialState 0)
        (Use (exMessageAt 0) exPingTwice # [Elapse 999, Use (exMessageAt 999) exPingTwice, Elapse 1])
          = Some sb"
    and nwb: "now sb = 1000" and pending: "timers sb 0 \<noteq> None"
    by (simp add: ex_defs cd_defs split: prod.splits)
  note b = cooldown_entry_lifetime [OF reach fresh own counted _ _ runb, unfolded time start cid]
  have second: "\<exists>s''. step exHandler sb (Fire 0) = Some s'' \<and> entryOf s'' (Some ''2'') ''ping'' = None"
    using b nwb pending by (simp del: step.simps)
  from runa nwa first runb nwb second show ?thesis
    by (simp del: step.simps run.simps)
qed

text \<open>
  Claim C2, as stated, fails: it lets the entry be cleared only after the full cooldown
  has passed with no further use. With a cooldown of 1000 ms and a rate limit of 2, the
  user's second use at 999 ms is counted, and the timer set by the first use clears the
  entry at 1000 ms, 1 ms after that use.
\<close>

theorem cooldown_entry_cleared_after_use:
  "map_option now (run exHandler (initialState 0) [Use (exMessageAt 0) exPingTwice, Elapse 999])
     = Some 999
   \<and> map_option (\<lambda>s. fst (runCooldowns exHandler (exMessageAt 999) exPingTwice s))
        (run exHandler (initialState 0) [Use (exMessageAt 0) exPingTwice, Elapse 999])
     = Some False
   \<and> map_option (\<lambda>s. (now s, entryOf s (Some ''2'') ''ping''))
        (run exHandler (initialState 0)
           [Use (exMessageAt 0) exPingTwice, Elapse 999, Use (exMessageAt 999) exPingTwice,
            Elapse 1, Fire 0])
     = Some (1000, None)"
  by (simp add: ex_defs cd_defs split: prod.splits)


section \<open>Prefixes: the longer prefix is tried first\<close>

lemma set_insertBy [simp]: "set (insertBy cmp x ys) = insert x (set ys)"
  by (induction ys) auto

lemma set_sortBy [simp]: "set (sortBy cmp xs) = set xs"
  by (induction xs) (simp_all add: sortBy_Nil sortBy_Cons)

lemma lexCompare_total: "\<not> lexCompare a b \<le> 0 \<Longrightarrow> lexCompare b a \<le> 0"
  by (induction a b rule: lexCompare.induct) (auto split: if_splits)

lemma lexCompare_trans:
  "lexCompare a b \<le> 0 \<Longrightarrow> lexCompare b c \<le> 0 \<Longrightarrow> lexCompare a c \<le> 0"
proof (induction a arbitrary: b c)
  case Nil
  then show ?case by (cases c) simp_all
next
  case (Cons x xs)
  from Cons.prems(1) obtain y ys where b: "b = y # ys" by (cases b) simp_all
  from Cons.prems(2) b obtain z zs where c: "c = z # zs" by (cases c) simp_all
  have xy: "charCode x \<le> charCode y"
    using Cons.prems(1) unfolding b by (simp split: if_splits)
  have yz: "charCode y \<le> charCode z"
    using Cons.prems(2) unfolding b c by (simp split: if_splits)
  show ?case
  proof (cases "charCode x < charCode z")
    case True
    then show ?thesis unfolding c by simp
  next
    case False
    then have eq: "charCode x = charCode y" "charCode y = charCode z" using xy yz by simp_all
    have "lexCompare xs ys \<le> 0" using Cons.prems(1) eq unfolding b by simp
    moreover have "lexCompare ys zs \<le> 0" using Cons.prems(2) eq unfolding b c by simp
    ultimately have "lexCompare xs zs \<le> 0" by (rule Cons.IH)
    then show ?thesis using eq unfolding c by simp
  qed
qed

lemma lexCompare_refl: "lexCompare a a = 0"
  by (induction a) simp_all

lemma prefixCompare_total:
  assumes "\<not> prefixCompare M a b \<le> 0"
  shows "prefixCompare M b a \<le> 0"
proof (cases "M a = M b")
  case False
  then show ?thesis using assms by (simp add: prefixCompare_def split: if_splits)
next
  case True
  show ?thesis
  proof (cases "length a = length b")
    case same: True
    then have "\<not> lexCompare a b \<le> 0" using assms True by (simp add: prefixCompare_def)
    then have "lexCompare b a \<le> 0" by (rule lexCompare_total)
    then show ?thesis using True same by (simp add: prefixCompare_def)
  next
    case False
    then have "length a < length b" using assms True by (simp add: prefixCompare_def)
    then show ?thesis using True by (simp add: prefixCompare_def)
  qed
qed

lemma prefixCompare_trans:
  assumes "prefixCompare M a b \<le> 0" and "prefixCompare M b c \<le> 0"
  shows "prefixCompare M a c \<le> 0"
proof -
  have ab: "M b \<longrightarrow> M a"
    using assms(1) by (simp add: prefixCompare_def split: if_splits)
  have bc: "M c \<longrightarrow> M b"
    using assms(2) by (simp add: prefixCompare_def split: if_splits)
  show ?thesis
  proof (cases "M a = M c")
    case False
    then have "M a \<and> \<not> M c" using ab bc by blast
    then show ?thesis by (simp add: prefixCompare_def)
  next
    case True
    then have all: "M a = M b" "M b = M c" using ab bc by blast+
    have lab: "if length a = length b then lexCompare a b \<le> 0 else length b < length a"
      using assms(1) all(1) by (simp add: prefixCompare_def split: if_splits)
    have lbc: "if length b = length c then lexCompare b c \<le> 0 else length c < length b"
      using assms(2) all(2) by (simp add: prefixCompare_def split: if_splits)
    show ?thesis
    proof (cases "length a = length b \<and> length b = length c")
      case same: True
      then have "lexCompare a b \<le> 0" "lexCompare b c \<le> 0" using lab lbc by simp_all
      then have "lexCompare a c \<le> 0" by (rule lexCompare_trans)
      then show ?thesis using True same by (simp add: prefixCompare_def)
    next
      case False
      have "length b \<le> length a" using lab by (simp split: if_splits)
      moreover have "length c \<le> length b" using lbc by (simp split: if_splits)
      moreover have "length a \<noteq> length b \<longrightarrow> length b < length a"
        using lab by (simp split: if_splits)
      moreover have "length b \<noteq> length c \<longrightarrow> length c < length b"
        using lbc by (simp split: if_splits)
      ultimately have "length c < length a" using False by linarith
      then show ?thesis using True by (simp add: prefixCompare_def)
    qed
  qed
qed

lemma prefixCompare_refl: "prefixCompare M a a \<le> 0"
  by (simp add: prefixCompare_def lexCompare_refl)

lemma prefixCompare_longer: "prefixCompare M a b \<le> 0 \<Longrightarrow> M a \<or> length b \<le> length a"
  by (simp add: prefixCompare_def split: if_splits)

lemma sorted_insertBy:
  assumes "sorted_wrt (\<lambda>a b. prefixCompare M a b \<le> 0) ys"
  shows "sorted_wrt (\<lambda>a b. prefixCompare M a b \<le> 0) (insertBy (prefixCompare M) x ys)"
  using assms
proof (induction ys)
  case Nil
  then show ?case by simp
next
  case (Cons y ys)
  show ?case
  proof (cases "prefixCompare M x y \<le> 0")
    case True
    have "\<forall>z\<in>set ys. prefixCompare M x z \<le> 0"
      using Cons.prems True by (auto intro: prefixCompare_trans)
    then show ?thesis using True Cons.prems by simp
  next
    case False
    then have yx: "prefixCompare M y x \<le> 0" by (rule prefixCompare_total)
    then show ?thesis using False Cons by auto
  qed
qed

lemma sorted_sortBy: "sorted_wrt (\<lambda>a b. prefixCompare M a b \<le> 0) (sortBy (prefixCompare M) xs)"
  by (induction xs) (simp_all add: sortBy_Nil sortBy_Cons sorted_insertBy)

lemma find_sorted_first:
  assumes "sorted_wrt (\<lambda>a b. prefixCompare M a b \<le> 0) xs" and "y \<in> set xs" and "Q y"
  shows "\<exists>x. find Q xs = Some x \<and> Q x \<and> prefixCompare M x y \<le> 0"
  using assms
proof (induction xs)
  case Nil
  then show ?case by simp
next
  case (Cons a xs)
  show ?case
  proof (cases "Q a")
    case True
    have "prefixCompare M a y \<le> 0"
      using Cons.prems by (auto simp: prefixCompare_refl)
    then show ?thesis using True by simp
  next
    case False
    then have "y \<in> set xs" using Cons.prems by auto
    then show ?thesis using Cons False by simp
  qed
qed

lemma find_map_comp: "find Q (map f xs) = map_option f (find (\<lambda>x. Q (f x)) xs)"
  by (induction xs) simp_all

lemma parseWithPrefix_command_prefix:
  "pc_command (parseWithPrefix h m p cmds) \<noteq> None \<Longrightarrow> pc_prefix (parseWithPrefix h m p cmds) = Some p"
  by (auto simp: parseWithPrefix_def Let_def emptyParse_def split: if_splits option.splits)

text \<open>
  Claim C4, as amended. Among the prefixes of the handler's own \<open>prefix\<close> option, let
  \<open>p2\<close> be longer than a string \<open>p1\<close> that is not an exact mention form of the bot (as
  \<open>!!\<close> is longer than \<open>!\<close>), and let the parse of the message with \<open>p2\<close> yield a known
  command. Then \<open>parseCommand\<close> resolves a command, and never with \<open>p1\<close>: the candidate
  prefixes are sorted by \<open>prefixCompare\<close> (longest first, exact mention forms of the bot
  excepted, ties of equal length broken lexicographically), the first parse that yields
  a known command wins, and its prefix is at least as long as \<open>p2\<close> unless it is an
  exact mention form. \<open>handle\<close> goes on with this parse: the prefixes that are specific
  to commands are consulted only when \<open>parseCommand\<close> found no command.
\<close>

theorem longer_prefix_first:
  assumes conf: "p2 \<in> set (intoArray (intoCallable (h_prefix h) m))"
    and shorter: "length p1 < length p2"
    and plain: "p1 \<notin> set (mentions h)"
    and known: "pc_command (parseWithPrefix h m p2 None) \<noteq> None"
  shows "sorted_wrt (\<lambda>a b. prefixCompare (\<lambda>p. p \<in> set (mentions h)) a b \<le> 0) (candidatePrefixes h m)
       \<and> (\<exists>p. find (\<lambda>p. pc_command (parseWithPrefix h m p None) \<noteq> None) (candidatePrefixes h m)
                = Some p
              \<and> parseCommand h m = parseWithPrefix h m p None
              \<and> pc_prefix (parseCommand h m) = Some p
              \<and> (p \<in> set (mentions h) \<or> length p2 \<le> length p))
       \<and> pc_command (parseCommand h m) \<noteq> None
       \<and> pc_prefix (parseCommand h m) \<noteq> Some p1
       \<and> parseForHandle h m = parseCommand h m"
proof -
  let ?M = "\<lambda>p. p \<in> set (mentions h)"
  let ?f = "\<lambda>p. parseWithPrefix h m p None"
  have mem: "p2 \<in> set (candidatePrefixes h m)"
    using conf by (simp add: candidatePrefixes_def Let_def)
  have srt: "sorted_wrt (\<lambda>a b. prefixCompare ?M a b \<le> 0) (candidatePrefixes h m)"
    unfolding candidatePrefixes_def Let_def by (rule sorted_sortBy)
  from find_sorted_first [OF srt mem, of "\<lambda>p. pc_command (?f p) \<noteq> None"] known
  obtain p where p: "find (\<lambda>p. pc_command (?f p) \<noteq> None) (candidatePrefixes h m) = Some p"
    "pc_command (?f p) \<noteq> None" "prefixCompare ?M p p2 \<le> 0"
    by blast
  have maps: "map (\<lambda>(prefix, cmds). parseWithPrefix h m prefix cmds)
                 (map (\<lambda>p. (p, None)) (candidatePrefixes h m))
                = map ?f (candidatePrefixes h m)"
    by simp
  have res: "parseCommand h m = ?f p"
    unfolding parseCommand_def parseMultiplePrefixes_def Let_def maps
    using p(1) by (simp add: find_map_comp)
  have pre: "pc_prefix (?f p) = Some p" using p(2) by (rule parseWithPrefix_command_prefix)
  have long: "p \<in> set (mentions h) \<or> length p2 \<le> length p"
    using prefixCompare_longer [OF p(3)] .
  have ne: "p \<noteq> p1" using long plain shorter by auto
  have cmd: "pc_command (parseCommand h m) \<noteq> None" using res p(2) by simp
  have handled: "parseForHandle h m = parseCommand h m"
    using cmd by (auto simp: parseForHandle_def Let_def)
  have "\<exists>p. find (\<lambda>p. pc_command (parseWithPrefix h m p None) \<noteq> None) (candidatePrefixes h m)
                = Some p
              \<and> parseCommand h m = parseWithPrefix h m p None
              \<and> pc_prefix (parseCommand h m) = Some p
              \<and> (p \<in> set (mentions h) \<or> length p2 \<le> length p)"
    using p(1) res pre long by auto
  moreover have "pc_prefix (parseCommand h m) \<noteq> Some p1" using res pre ne by simp
  ultimately show ?thesis using srt cmd handled by blast
qed

theorem longer_prefix_first_witness:
  "''!!'' \<in> set (intoArray (intoCallable (h_prefix exHandler) exMessage))
   \<and> length ''!'' < length ''!!''
   \<and> ''!'' \<notin> set (mentions exHandler)
   \<and> map_option c_id (pc_command (parseWithPrefix exHandler exMessage ''!!'' None)) = Some ''ping''
   \<and> candidatePrefixes exHandler exMessage = [''<@!9>'', ''<@9>'', ''!!'', ''!'']
   \<and> pc_command (parseCommand exHandler exMessage) \<noteq> None
   \<and> pc_prefix (parseCommand exHandler exMessage) \<noteq> Some ''!''
   \<and> pc_prefix (parseCommand exHandler exMessage) = Some ''!!''
   \<and> map_option c_id (pc_command (parseForHandle exHandler exMessage)) = Some ''ping''"
proof -
  have conf: "''!!'' \<in> set (intoArray (intoCallable (h_prefix exHandler) exMessage))"
    by (simp add: exHandler_def intoCallable_def intoArray_def)
  have shorter: "length ''!'' < length ''!!''" by simp
  have plain: "''!'' \<notin> set (mentions exHandler)"
    by (simp add: mentions_def exHandler_def)
  have cmd: "map_option c_id (pc_command (parseWithPrefix exHandler exMessage ''!!'' None)) = Some ''ping''"
    by code_simp
  then have known: "pc_command (parseWithPrefix exHandler exMessage ''!!'' None) \<noteq> None"
    by auto
  have cands: "candidatePrefixes exHandler exMessage = [''<@!9>'', ''<@9>'', ''!!'', ''!'']"
    by code_simp
  have val: "pc_prefix (parseCommand exHandler exMessage) = Some ''!!''"
    by code_simp
  have "map_option c_id (pc_command (parseCommand exHandler exMessage)) = Some ''ping''"
    by code_simp
  then have handled: "map_option c_id (pc_command (parseForHandle exHandler exMessage)) = Some ''ping''"
    using longer_prefix_first [OF conf shorter plain known] by simp
  from longer_prefix_first [OF conf shorter plain known] conf shorter plain cmd cands val handled
  show ?thesis by blast
qed

text \<open>
  Claim C4, as stated, fails: a message that starts with the longer prefix is not always
  resolved with it. With the prefixes \<open>!\<close> and \<open>!!\<close> and a command whose alias is
  \<open>!ping\<close>, the message \<open>!!ping\<close> parses with \<open>!!\<close> to the unknown alias \<open>ping\<close> and with
  \<open>!\<close> to the known alias \<open>!ping\<close>; the first parse that yields a known command is the
  one with the shorter prefix, whatever the order of the candidates.
\<close>

theorem shorter_prefix_used:
  "''!'' \<in> set (intoArray (intoCallable (h_prefix exBangHandler) exMessage))
   \<and> ''!!'' \<in> set (intoArray (intoCallable (h_prefix exBangHandler) exMessage))
   \<and> startsWith ''!!'' ''!''
   \<and> m_content exMessage = ''!!ping''
   \<and> startsWith (m_content exMessage) ''!!''
   \<and> map_option c_id (pc_command (parseCommand exBangHandler exMessage)) = Some ''ping''
   \<and> pc_prefix (parseCommand exBangHandler exMessage) = Some ''!''"
  by code_simp


section \<open>Errors of the command body\<close>


lemmas post_defs = runPostTypeInhibitors_def runCustomPostInhibitors_def runPermissionChecks_def
  userPermissionChecks_def inhibitorTest_def isOwner_def isSuperUser_def
lemmas direct_defs = prepareCommand_def beginCommand_def acquireLock_def startCommand_def
  executeCommand_def completeCommand_def finishCommand_def catchError_def emitError_def
  releaseLock_def truthyTime_def truthyKey_def





section \<open>Flags never reach the command body\<close>

lemma onlyAdds_refl [simp]: "onlyAdds s s"
  by (simp add: onlyAdds_def)

lemma onlyAdds_trans: "onlyAdds s s1 \<Longrightarrow> onlyAdds s1 s2 \<Longrightarrow> onlyAdds s s2"
  by (auto simp: onlyAdds_def)

lemma onlyAdds_same_trace: "trace s' = trace s1 \<Longrightarrow> onlyAdds s s1 \<Longrightarrow> onlyAdds s s'"
  by (simp add: onlyAdds_def)

lemma onlyAdds_emit [intro]: "onlyAdds s s1 \<Longrightarrow> onlyAdds s (emit e s1)"
  by (auto simp: onlyAdds_def emit_def flagFree_def)

lemma onlyAdds_startCommand [intro]: "onlyAdds s s1 \<Longrightarrow> onlyAdds s (startCommand m c (Args p) s1)"
  by (auto simp: onlyAdds_def startCommand_def flagFree_def)

lemma onlyAdds_setEntry [intro]: "onlyAdds s s1 \<Longrightarrow> onlyAdds s (setEntry u c v s1)"
  by (simp add: onlyAdds_def setEntry_def)

lemma onlyAdds_ensureUser [intro]: "onlyAdds s s1 \<Longrightarrow> onlyAdds s (ensureUser u s1)"
  by (simp add: onlyAdds_def)

lemma onlyAdds_setTimeout [intro]: "onlyAdds s s1 \<Longrightarrow> onlyAdds s (setTimeout t u c s1)"
  by (simp add: onlyAdds_def setTimeout_def)

lemma onlyAdds_releaseLock [intro]: "onlyAdds s s1 \<Longrightarrow> onlyAdds s (releaseLock c k s1)"
  by (auto simp: onlyAdds_def releaseLock_def split: option.splits)

lemma onlyAdds_runCooldowns:
  "runCooldowns h m c s1 = (r, s2) \<Longrightarrow> onlyAdds s s1 \<Longrightarrow> onlyAdds s s2"
  by (cases h m c s1 rule: runCooldowns_cases) auto

lemma onlyAdds_emitError:
  "emitError h e m c s1 = (r, s2) \<Longrightarrow> onlyAdds s s1 \<Longrightarrow> onlyAdds s s2"
  by (auto simp: emitError_def split: if_splits)

lemma onlyAdds_catchError:
  "catchError h e m c s1 = (r, s2) \<Longrightarrow> onlyAdds s s1 \<Longrightarrow> onlyAdds s s2"
  by (auto simp: catchError_def emitError_def split: if_splits)

lemma onlyAdds_userPermissionChecks:
  "userPermissionChecks h m c s1 = (r, s2) \<Longrightarrow> onlyAdds s s1 \<Longrightarrow> onlyAdds s s2"
  by (auto simp: userPermissionChecks_def Let_def
      split: option.splits sum.splits bool.splits permissionCheck.splits if_splits)

lemma onlyAdds_runPermissionChecks:
  "runPermissionChecks h m c s1 = (r, s2) \<Longrightarrow> onlyAdds s s1 \<Longrightarrow> onlyAdds s s2"
  by (auto simp: runPermissionChecks_def Let_def
      split: option.splits sum.splits permissionCheck.splits if_splits
      dest: onlyAdds_userPermissionChecks)

lemma onlyAdds_runCustomPostInhibitors:
  "runCustomPostInhibitors h m c s1 = (r, s2) \<Longrightarrow> onlyAdds s s1 \<Longrightarrow> onlyAdds s s2"
  by (auto simp: runCustomPostInhibitors_def
      split: option.splits sum.splits bool.splits prod.splits if_splits
      dest: onlyAdds_runPermissionChecks onlyAdds_runCooldowns)

lemma onlyAdds_runPostTypeInhibitors:
  "runPostTypeInhibitors h m c s1 = (r, s2) \<Longrightarrow> onlyAdds s s1 \<Longrightarrow> onlyAdds s s2"
  by (auto simp: runPostTypeInhibitors_def Let_def
      split: option.splits sum.splits bool.splits prod.splits if_splits
      dest: onlyAdds_runPermissionChecks onlyAdds_runCustomPostInhibitors)

lemma onlyAdds_prepareCommand:
  "prepareCommand h m content c ignore s1 = (r, s2) \<Longrightarrow> onlyAdds s s1 \<Longrightarrow> onlyAdds s s2"
  by (auto simp: prepareCommand_def Let_def
      split: option.splits sum.splits bool.splits prod.splits if_splits outcome.splits
      dest: onlyAdds_runPostTypeInhibitors)


lemma onlyAdds_acquireLock:
  "acquireLock m c a s1 = (r, s2) \<Longrightarrow> onlyAdds s s1 \<Longrightarrow> onlyAdds s s2"
  by (auto simp: acquireLock_def onlyAdds_def emit_def flagFree_def
      split: option.splits sum.splits if_splits)

lemma onlyAdds_beginCommand:
  "beginCommand h m c (Args p) ignore s1 = (r, s2) \<Longrightarrow> onlyAdds s s1 \<Longrightarrow> onlyAdds s s2"
  by (auto simp: beginCommand_def
      split: option.splits sum.splits prod.splits if_splits lockOutcome.splits
      dest: onlyAdds_acquireLock onlyAdds_catchError)

lemma onlyAdds_finishCommand:
  "finishCommand m c a res s1 = (r, s2) \<Longrightarrow> onlyAdds s s1 \<Longrightarrow> onlyAdds s s2"
  by (auto simp: finishCommand_def split: sum.splits)

lemma onlyAdds_completeCommand:
  "completeCommand h m c a key res s1 = (r, s2) \<Longrightarrow> onlyAdds s s1 \<Longrightarrow> onlyAdds s s2"
  by (auto simp: completeCommand_def split: sum.splits prod.splits
      dest: onlyAdds_finishCommand onlyAdds_catchError)

lemma onlyAdds_executeCommand:
  "executeCommand h m c (Args p) ignore s1 = (r, s2) \<Longrightarrow> onlyAdds s s1 \<Longrightarrow> onlyAdds s s2"
  by (auto simp: executeCommand_def split: sum.splits prod.splits
      dest: onlyAdds_beginCommand onlyAdds_completeCommand)

lemma onlyAdds_runCommand:
  "runCommand m c (Args p) s1 = (r, s2) \<Longrightarrow> onlyAdds s s1 \<Longrightarrow> onlyAdds s s2"
  by (auto simp: runCommand_def dest: onlyAdds_finishCommand)

lemma onlyAdds_runTriggered:
  "runTriggered h m c (Args p) s1 = (r, s2) \<Longrightarrow> onlyAdds s s1 \<Longrightarrow> onlyAdds s s2"
  by (auto simp: runTriggered_def Let_def
      split: option.splits sum.splits prod.splits bool.splits
      dest: onlyAdds_runPostTypeInhibitors onlyAdds_runCommand onlyAdds_emitError)

lemma onlyAdds_runAllTriggered:
  "runAllTriggered h m xs s1 = (r, s2) \<Longrightarrow> \<forall>x\<in>set xs. \<exists>p. snd x = Args p
     \<Longrightarrow> onlyAdds s s1 \<Longrightarrow> onlyAdds s s2"
proof (induction xs arbitrary: s1 r)
  case Nil
  then show ?case by simp
next
  case (Cons x xs)
  obtain c a where x: "x = (c, a)" by (cases x)
  then obtain p where a: "a = Args p" using Cons.prems(2) by auto
  obtain r1 s' where one: "runTriggered h m c (Args p) s1 = (r1, s')" by (cases "runTriggered h m c (Args p) s1")
  obtain rs where rest: "runAllTriggered h m xs s' = (rs, s2)"
    using Cons.prems(1) one x a by (auto split: prod.splits)
  have "onlyAdds s s'" using one Cons.prems(3) by (rule onlyAdds_runTriggered)
  with Cons.IH [OF rest] Cons.prems(2) show ?case by simp
qed

lemma matched_are_Args:
  "\<forall>x\<in>set (concat (map (\<lambda>(c, regex). case regex m of None \<Rightarrow> []
                                     | Some found \<Rightarrow> [(c, Args found)]) cs)).
     \<exists>p. snd x = Args p"
proof (induction cs)
  case Nil
  then show ?case by simp
next
  case (Cons a cs)
  obtain c regex where a: "a = (c, regex)" by (cases a)
  show ?case using Cons.IH by (cases "regex m") (simp_all add: a)
qed

lemma onlyAdds_handleRegexCommands:
  "handleRegexCommands h m s1 = (r, s2) \<Longrightarrow> onlyAdds s s1 \<Longrightarrow> onlyAdds s s2"
proof -
  assume a: "handleRegexCommands h m s1 = (r, s2)" and b: "onlyAdds s s1"
  have args: "\<forall>x\<in>set (matchedCommands h m). \<exists>p. snd x = Args p"
    unfolding matchedCommands_def by (rule matched_are_Args)
  show ?thesis
  proof (cases "matchedCommands h m = []")
    case True
    then show ?thesis using a b by (simp add: handleRegexCommands_def)
  next
    case False
    obtain r1 s' where run: "runAllTriggered h m (matchedCommands h m) s1 = (r1, s')"
      by (meson surj_pair)
    then have "s2 = s'" using a False
      by (auto simp: handleRegexCommands_def split: option.splits)
    then show ?thesis using onlyAdds_runAllTriggered [OF run args b] by simp
  qed
qed

lemma onlyAdds_handleConditionalCommands:
  "handleConditionalCommands h m s1 = (r, s2) \<Longrightarrow> onlyAdds s s1 \<Longrightarrow> onlyAdds s s2"
proof -
  assume a: "handleConditionalCommands h m s1 = (r, s2)" and b: "onlyAdds s s1"
  have run: "\<And>found r1 s'. runAllTriggered h m (map (\<lambda>c. (c, Args [])) found) s1 = (r1, s')
               \<Longrightarrow> onlyAdds s s'"
    by (rule onlyAdds_runAllTriggered [OF _ _ b]) auto
  show ?thesis using a b run
    by (auto simp: handleConditionalCommands_def Let_def
        split: sum.splits if_splits prod.splits option.splits)
qed

lemma onlyAdds_handleRegexAndConditionalCommands:
  "handleRegexAndConditionalCommands h m s1 = (r, s2) \<Longrightarrow> onlyAdds s s1 \<Longrightarrow> onlyAdds s s2"
  by (auto simp: handleRegexAndConditionalCommands_def split: sum.splits prod.splits
      dest: onlyAdds_handleRegexCommands onlyAdds_handleConditionalCommands)

lemma onlyAdds_runAllTypeInhibitors:
  "runAllTypeInhibitors h m slash s1 = (r, s2) \<Longrightarrow> onlyAdds s s1 \<Longrightarrow> onlyAdds s s2"
  by (auto simp: runAllTypeInhibitors_def split: sum.splits option.splits if_splits)

lemma onlyAdds_runPreTypeInhibitors:
  "runPreTypeInhibitors h m s1 = (r, s2) \<Longrightarrow> onlyAdds s s1 \<Longrightarrow> onlyAdds s s2"
  by (auto simp: runPreTypeInhibitors_def split: sum.splits option.splits if_splits)

lemma onlyAdds_finishHandle:
  "finishHandle h m (r1, s1) = (r, s2) \<Longrightarrow> onlyAdds s s1 \<Longrightarrow> onlyAdds s s2"
  by (auto simp: finishHandle_def split: sum.splits if_splits dest: onlyAdds_catchError)

lemma onlyAdds_handle_both:
  "(\<forall>h m s0 r s' s. handle n h m s0 = Some (r, s') \<longrightarrow> onlyAdds s s0 \<longrightarrow> onlyAdds s s')
   \<and> (\<forall>h m content c ignore s0 r s' s.
         handleDirectCommand n h m content c ignore s0 = Some (r, s') \<longrightarrow> onlyAdds s s0
         \<longrightarrow> onlyAdds s s')"
proof (induction n)
  case 0
  show ?case by simp
next
  case (Suc n)
  have IHh: "\<And>h m s0 r s' s. handle n h m s0 = Some (r, s') \<Longrightarrow> onlyAdds s s0 \<Longrightarrow> onlyAdds s s'"
    and IHd: "\<And>h m content c ignore s0 r s' s.
         handleDirectCommand n h m content c ignore s0 = Some (r, s') \<Longrightarrow> onlyAdds s s0
         \<Longrightarrow> onlyAdds s s'"
    using Suc by blast+
  have direct: "onlyAdds s s'"
    if run: "handleDirectCommand (Suc n) h m content c ignore s0 = Some (r, s')"
      and base: "onlyAdds s s0"
    for h m content c ignore s0 r s' s
  proof -
    obtain o1 s1 where prep: "prepareCommand h m content c ignore s0 = (o1, s1)"
      by (cases "prepareCommand h m content c ignore s0")
    have s1: "onlyAdds s s1" using prep base by (rule onlyAdds_prepareCommand)
    show ?thesis
    proof (cases o1)
      case (Return x)
      then show ?thesis using run prep s1 by simp
    next
      case (Thrown e)
      then show ?thesis using run prep s1
        by (auto dest: onlyAdds_catchError)
    next
      case (Next ca)
      obtain cmd a where ca: "ca = (cmd, a)" by (cases ca)
      show ?thesis
      proof (cases a)
        case (Args p)
        then show ?thesis using run prep s1 Next ca
          by (auto dest: onlyAdds_executeCommand)
      next
        case (FlagValue f)
        show ?thesis
        proof (cases f)
          case Cancel
          then show ?thesis using run prep s1 Next ca FlagValue by auto
        next
          case (Retry m')
          then have "handle n h m' (emit (COMMAND_BREAKOUT m (c_id cmd) m') s1) = Some (r, s')"
            using run prep Next ca FlagValue by simp
          then show ?thesis using s1 by (auto dest: IHh)
        next
          case (Continue name ign rest)
          then have "handleDirectCommand n h m rest (map_of (h_modules h) name) ign s1 = Some (r, s')"
            using run prep Next ca FlagValue by simp
          then show ?thesis using s1 by (auto dest: IHd)
        qed
      qed
    qed
  qed
  have top: "onlyAdds s s'"
    if run: "handle (Suc n) h m s0 = Some (r, s')" and base: "onlyAdds s s0"
    for h m s0 r s' s
  proof -
    obtain r1 s1 where all: "runAllTypeInhibitors h m False s0 = (r1, s1)"
      by (cases "runAllTypeInhibitors h m False s0")
    have s1: "onlyAdds s s1" using all base by (rule onlyAdds_runAllTypeInhibitors)
    obtain r2 s2 where pre: "runPreTypeInhibitors h m s1 = (r2, s2)"
      by (cases "runPreTypeInhibitors h m s1")
    have s2: "onlyAdds s s2" using pre s1 by (rule onlyAdds_runPreTypeInhibitors)
    show ?thesis
    proof (cases "r1 = Inr False \<and> r2 = Inr False")
      case False
      then show ?thesis using run all pre s1 s2
        by (auto split: sum.splits bool.splits dest: onlyAdds_catchError)
    next
      case True
      show ?thesis
      proof (cases "pc_command (parseForHandle h m)")
        case None
        obtain r3 s3 where rc: "handleRegexAndConditionalCommands h m s2 = (r3, s3)"
          by (cases "handleRegexAndConditionalCommands h m s2")
        have s3: "onlyAdds s s3" using rc s2 by (rule onlyAdds_handleRegexAndConditionalCommands)
        show ?thesis using run all pre True None rc s3
          by (auto simp: Let_def split: sum.splits dest: onlyAdds_finishHandle)
      next
        case (Some c)
        show ?thesis
        proof (cases "c_slashOnly c")
          case True
          then show ?thesis using run all pre \<open>r1 = Inr False \<and> r2 = Inr False\<close> Some s2
            by (auto simp: Let_def)
        next
          case False
          then obtain r3 s3 where d: "handleDirectCommand n h m
                (case pc_content (parseForHandle h m) of None \<Rightarrow> [] | Some x \<Rightarrow> x)
                (Some c) False s2 = Some (r3, s3)"
            and fin: "finishHandle h m (r3, s3) = (r, s')"
            using run all pre \<open>r1 = Inr False \<and> r2 = Inr False\<close> Some
            by (auto simp: Let_def split: option.splits)
          have "onlyAdds s s3" using d s2 by (rule IHd)
          then show ?thesis using fin by (auto dest: onlyAdds_finishHandle)
        qed
      qed
    qed
  qed
  from direct top show ?case by blast
qed

text \<open>
  Claim C6. When the resolution of the arguments gives a control Flag, the handling is
  cut short and \<open>exec\<close> is never called with the Flag as its arguments: whatever
  \<open>handle\<close> and \<open>handleDirectCommand\<close> add to the trace, through every retry and
  continuation, has no call of \<open>exec\<close> with a Flag. A \<open>cancel\<close> Flag emits the cancelled
  event and ends the handling with \<open>true\<close>; a \<open>retry\<close> Flag emits the breakout event and
  hands its message to \<open>handle\<close>; a \<open>continue\<close> Flag hands the leftover text, the named
  command and the ignore flag to \<open>handleDirectCommand\<close>.
\<close>

theorem flag_short_circuits:
  "(handle n h m s = Some (r, s') \<longrightarrow> onlyAdds s s')
   \<and> (handleDirectCommand n h m content c ignore s = Some (r, s') \<longrightarrow> onlyAdds s s')
   \<and> (prepareCommand h m content c ignore s = (Next (cmd, FlagValue Cancel), s1)
        \<longrightarrow> handleDirectCommand (Suc n) h m content c ignore s
             = Some (Inr (Some True), emit (COMMAND_CANCELLED m (c_id cmd)) s1))
   \<and> (prepareCommand h m content c ignore s = (Next (cmd, FlagValue (Retry m')), s1)
        \<longrightarrow> handleDirectCommand (Suc n) h m content c ignore s
             = handle n h m' (emit (COMMAND_BREAKOUT m (c_id cmd) m') s1))
   \<and> (prepareCommand h m content c ignore s = (Next (cmd, FlagValue (Continue name ign rest)), s1)
        \<longrightarrow> handleDirectCommand (Suc n) h m content c ignore s
             = handleDirectCommand n h m rest (map_of (h_modules h) name) ign s1)"
proof -
  have a: "handle n h m s = Some (r, s') \<longrightarrow> onlyAdds s s'"
    using onlyAdds_handle_both [of n] onlyAdds_refl [of s] by blast
  have b: "handleDirectCommand n h m content c ignore s = Some (r, s') \<longrightarrow> onlyAdds s s'"
    using onlyAdds_handle_both [of n] onlyAdds_refl [of s] by blast
  show ?thesis using a b by simp
qed

theorem flag_short_circuits_witness:
  "prepareCommand exFlagHandler exMessage [] (Some exCancel) False (initialState 0)
     = (Next (exCancel, FlagValue Cancel), initialState 0)
   \<and> handleDirectCommand (Suc 0) exFlagHandler exMessage [] (Some exCancel) False (initialState 0)
       = Some (Inr (Some True), emit (COMMAND_CANCELLED exMessage ''cancel'') (initialState 0))
   \<and> map_option (\<lambda>r. (fst r, trace (snd r)))
        (handleDirectCommand 3 exFlagHandler exMessage [] (Some exRetry) False (initialState 0))
       = Some (Inr (Some True),
           [Emit (COMMAND_BREAKOUT exMessage ''retry'' (exMessage\<lparr>m_content := ''!ping''\<rparr>)),
            Emit (COMMAND_STARTED (exMessage\<lparr>m_content := ''!ping''\<rparr>) ''ping'' (Args [])),
            Exec ''ping'' (exMessage\<lparr>m_content := ''!ping''\<rparr>) (Args []),
            Emit (COMMAND_FINISHED (exMessage\<lparr>m_content := ''!ping''\<rparr>) ''ping'' (Args []) ''pong'')])
   \<and> map_option (\<lambda>r. (fst r, trace (snd r)))
        (handleDirectCommand 3 exFlagHandler exMessage [] (Some (exContinue False)) False (initialState 0))
       = Some (Inr (Some True),
           [Emit (COMMAND_STARTED exMessage ''b'' (Args [(''text'', ''x'')])),
            Exec ''b'' exMessage (Args [(''text'', ''x'')]),
            Emit (COMMAND_FINISHED exMessage ''b'' (Args [(''text'', ''x'')]) ''done'')])"
proof -
  have prep: "prepareCommand exFlagHandler exMessage [] (Some exCancel) False (initialState 0)
     = (Next (exCancel, FlagValue Cancel), initialState 0)"
    by (simp add: exFlagHandler_def exCancel_def ex_defs direct_defs post_defs cd_defs)
  have "handleDirectCommand (Suc 0) exFlagHandler exMessage [] (Some exCancel) False (initialState 0)
       = Some (Inr (Some True), emit (COMMAND_CANCELLED exMessage (c_id exCancel)) (initialState 0))"
    using flag_short_circuits [of 0 exFlagHandler exMessage "initialState 0" "Inr None" "initialState 0"
        "[]" "Some exCancel" False exCancel "initialState 0"] prep
    by blast
  then have cancel: "handleDirectCommand (Suc 0) exFlagHandler exMessage [] (Some exCancel) False (initialState 0)
       = Some (Inr (Some True), emit (COMMAND_CANCELLED exMessage ''cancel'') (initialState 0))"
    by (simp add: exCancel_def newCommand_def del: handleDirectCommand.simps)
  have retry: "map_option (\<lambda>r. (fst r, trace (snd r)))
        (handleDirectCommand 3 exFlagHandler exMessage [] (Some exRetry) False (initialState 0))
       = Some (Inr (Some True),
           [Emit (COMMAND_BREAKOUT exMessage ''retry'' (exMessage\<lparr>m_content := ''!ping''\<rparr>)),
            Emit (COMMAND_STARTED (exMessage\<lparr>m_content := ''!ping''\<rparr>) ''ping'' (Args [])),
            Exec ''ping'' (exMessage\<lparr>m_content := ''!ping''\<rparr>) (Args []),
            Emit (COMMAND_FINISHED (exMessage\<lparr>m_content := ''!ping''\<rparr>) ''ping'' (Args []) ''pong'')])"
    by code_simp
  have continue: "map_option (\<lambda>r. (fst r, trace (snd r)))
        (handleDirectCommand 3 exFlagHandler exMessage [] (Some (exContinue False)) False (initialState 0))
       = Some (Inr (Some True),
           [Emit (COMMAND_STARTED exMessage ''b'' (Args [(''text'', ''x'')])),
            Exec ''b'' exMessage (Args [(''text'', ''x'')]),
            Emit (COMMAND_FINISHED exMessage ''b'' (Args [(''text'', ''x'')]) ''done'')])"
    by code_simp
  from prep cancel retry continue show ?thesis by blast
qed


section \<open>The continue Flag\<close>






section \<open>Locks: overlapping handlings of one command\<close>


lemma lockers_startCommand [simp]: "lockers (startCommand m c a s) = lockers s"
  by (simp add: startCommand_def)











end
